theory Spec2Isabelle
  imports Main "HOL-Library.Sublist" "HOL-Library.Multiset" "HOL-Library.AList"
begin

section \<open>JavaScript values\<close>

text \<open>
  The build script handles JSON documents (the published manifest, the replies of the
  revision lookup) and the manifest object it assembles itself.  A value is one of the
  JSON values that occur in them, \<open>undefined\<close>, or one of the two kinds of
  object that a property read on a plain object can return without the object owning
  the property: the object \<open>Object.prototype\<close> and the built-in functions
  stored in it.

  An object is the list of its own enumerable properties in the order in which
  \<open>Object.keys\<close> enumerates them.  The prototype of \<open>JObj kvs\<close> is
  \<open>Object.prototype\<close>, as for every object that \<open>{}\<close> or
  \<open>JSON.parse\<close> creates; \<open>JObjWith p kvs\<close> is an object whose prototype
  an assignment to \<open>__proto__\<close> has replaced by \<open>p\<close>, an object or
  \<open>null\<close>.  \<open>JBuiltin k\<close> is the function that
  \<open>Object.prototype\<close> holds under the key \<open>k\<close> when the script starts.
  \<open>JObjectPrototype t\<close> is the object \<open>Object.prototype\<close>, with the
  properties \<open>t\<close> that assignments of the script have given it.

  A number is represented by the decimal text that JavaScript prints for it: two JSON
  numbers are equal exactly when these texts are.  JSON arrays do not occur in a manifest
  and are not part of the model.
\<close>

datatype jsval =
    JUndefined
  | JNull
  | JBool bool
  | JNum string
  | JStr string
  | JObj "(string \<times> jsval) list"
  | JObjWith jsval "(string \<times> jsval) list"
  | JBuiltin string
  | JObjectPrototype "(string \<times> jsval) list"

datatype jstype = T_undefined | T_object | T_boolean | T_number | T_string | T_function

text \<open>
  What the script can throw: the language's \<open>TypeError\<close> and
  \<open>SyntaxError\<close>, a rejected \<open>fetch\<close>, the two \<open>new Error(...)\<close>
  of the script with their messages, the \<open>error\<close> event of a child process that
  could not be spawned, a failed file system call and a crash of the extractor.
\<close>

datatype error =
    TypeError
  | SyntaxError
  | NetworkError
  | Error string
  | SpawnError
  | FsError
  | ExtractorError

text \<open>The \<open>typeof\<close> operator; \<open>typeof null\<close> is \<open>"object"\<close>.\<close>

fun typeof :: "jsval \<Rightarrow> jstype" where
  "typeof JUndefined = T_undefined"
| "typeof JNull = T_object"
| "typeof (JBool _) = T_boolean"
| "typeof (JNum _) = T_number"
| "typeof (JStr _) = T_string"
| "typeof (JObj _) = T_object"
| "typeof (JObjWith _ _) = T_object"
| "typeof (JBuiltin _) = T_function"
| "typeof (JObjectPrototype _) = T_object"

text \<open>An object in the sense of the language: an object or a function, not \<open>null\<close>.\<close>

definition is_object :: "jsval \<Rightarrow> bool" where
  "is_object v \<longleftrightarrow> v \<noteq> JNull \<and> (typeof v = T_object \<or> typeof v = T_function)"

subsection \<open>The built-in objects\<close>

text \<open>
  The members of \<open>Object.prototype\<close>.  All of them are functions, held in
  writable properties that are not enumerable, except the accessor \<open>__proto__\<close>:
  its getter returns the prototype of the object it is read from, and its setter replaces
  that prototype.
\<close>

definition prototype_functions :: "string list" where
  "prototype_functions =
     [''constructor'', ''hasOwnProperty'', ''isPrototypeOf'', ''propertyIsEnumerable'',
      ''toLocaleString'', ''toString'', ''valueOf'', ''__defineGetter__'',
      ''__defineSetter__'', ''__lookupGetter__'', ''__lookupSetter__'']"

text \<open>
  The built-in objects are shared by all the code of the process, and the script can
  reach two kinds of them by reading a property that an object does not own:
  \<open>Object.prototype\<close> and the functions it holds.  An assignment to a property
  of such an object changes it for every later read.  The realm records these changes:
  the properties that assignments have given to \<open>Object.prototype\<close> (the value
  of a member that was overwritten, or a new property, which is enumerable), and for each
  of the functions the properties and the prototype that assignments have given to it,
  as an object of its own (the function has none when it was never assigned to).  How the
  functions of the platform itself react to changed built-in objects is not part of the
  model.
\<close>

record realm =
  object_prototype :: "(string \<times> jsval) list"
  function_objects :: "(string \<times> jsval) list"

text \<open>The realm in which the script starts.\<close>

definition pristine :: realm where
  "pristine = \<lparr>object_prototype = [], function_objects = []\<rparr>"

definition function_state :: "realm \<Rightarrow> string \<Rightarrow> jsval" where
  "function_state r f = (case map_of (function_objects r) f of Some st \<Rightarrow> st | None \<Rightarrow> JObj [])"

text \<open>
  What \<open>Object.prototype\<close> with the properties \<open>t\<close> holds under a key
  other than \<open>__proto__\<close>.
\<close>

definition inherited :: "(string \<times> jsval) list \<Rightarrow> string \<Rightarrow> jsval" where
  "inherited t k =
     (case map_of t k of
        Some v \<Rightarrow> v
      | None \<Rightarrow> if k \<in> set prototype_functions then JBuiltin k else JUndefined)"

subsection \<open>Reading a property\<close>

text \<open>
  The search for the key \<open>k\<close> along a prototype chain, from the object \<open>p\<close>
  on, for a read on an object whose prototype is \<open>q\<close>: the first object of the
  chain that owns the key gives the value; the chain of an object with a replaced
  prototype continues there, and the chain of a plain object continues with
  \<open>Object.prototype\<close>, whose accessor \<open>__proto__\<close> returns \<open>q\<close>;
  at \<open>null\<close> the chain ends.
\<close>

fun lookup :: "realm \<Rightarrow> jsval \<Rightarrow> string \<Rightarrow> jsval \<Rightarrow> jsval" where
  "lookup r (JObj kvs) k q =
     (case map_of kvs k of
        Some v \<Rightarrow> v
      | None \<Rightarrow> if k = ''__proto__'' then q else inherited (object_prototype r) k)"
| "lookup r (JObjWith p kvs) k q =
     (case map_of kvs k of Some v \<Rightarrow> v | None \<Rightarrow> lookup r p k q)"
| "lookup r (JObjectPrototype t) k q = (if k = ''__proto__'' then q else inherited t k)"
| "lookup r _ k q = JUndefined"

text \<open>
  The property read \<open>a[k]\<close> on a value \<open>a\<close> whose \<open>typeof\<close> is
  \<open>"object"\<close> and that is not \<open>null\<close>: the own property when there is
  one, and what the prototype chain gives otherwise.
\<close>

fun get :: "realm \<Rightarrow> jsval \<Rightarrow> string \<Rightarrow> jsval" where
  "get r (JObj kvs) k =
     (case map_of kvs k of
        Some v \<Rightarrow> v
      | None \<Rightarrow>
          if k = ''__proto__'' then JObjectPrototype (object_prototype r)
          else inherited (object_prototype r) k)"
| "get r (JObjWith p kvs) k =
     (case map_of kvs k of Some v \<Rightarrow> v | None \<Rightarrow> lookup r p k p)"
| "get r (JObjectPrototype t) k = (if k = ''__proto__'' then JNull else inherited t k)"
| "get r _ k = JUndefined"

text \<open>
  The member read \<open>v.k\<close> of \<open>j.commit.sha\<close>, for the two keys
  \<open>commit\<close> and \<open>sha\<close>, which no built-in prototype defines: a
  \<open>TypeError\<close> on \<open>undefined\<close> and \<open>null\<close>; on a number, a
  string or a boolean, whose prototypes inherit from \<open>Object.prototype\<close>, what
  \<open>Object.prototype\<close> holds; on a function, what the function owns or inherits.
\<close>

fun member :: "realm \<Rightarrow> jsval \<Rightarrow> string \<Rightarrow> error + jsval" where
  "member r JUndefined k = Inl TypeError"
| "member r JNull k = Inl TypeError"
| "member r (JObj kvs) k = Inr (get r (JObj kvs) k)"
| "member r (JObjWith p kvs) k = Inr (get r (JObjWith p kvs) k)"
| "member r (JObjectPrototype t) k = Inr (get r (JObjectPrototype t) k)"
| "member r (JBuiltin f) k = Inr (get r (function_state r f) k)"
| "member r _ k = Inr (inherited (object_prototype r) k)"

text \<open>
  \<open>Object.keys\<close> is a property of the function \<open>Object\<close>, which
  \<open>Object.prototype\<close> holds under \<open>constructor\<close>: when an assignment has
  replaced it (by a value of a JSON document, which is no function) the call throws a
  \<open>TypeError\<close>.  Otherwise, on a value whose \<open>typeof\<close> is
  \<open>"object"\<close>, the only values \<open>deepEqual\<close> passes to it, it throws a
  \<open>TypeError\<close> on \<open>null\<close> and lists the own enumerable properties of an
  object; the members of \<open>Object.prototype\<close> are not enumerable.
\<close>

definition keys_intact :: "realm \<Rightarrow> bool" where
  "keys_intact r \<longleftrightarrow>
     (case function_state r ''constructor'' of
        JObj kvs \<Rightarrow> map_of kvs ''keys'' = None
      | JObjWith p kvs \<Rightarrow> map_of kvs ''keys'' = None
      | _ \<Rightarrow> True)"

fun own_keys :: "jsval \<Rightarrow> error + string list" where
  "own_keys JNull = Inl TypeError"
| "own_keys JUndefined = Inl TypeError"
| "own_keys (JObj kvs) = Inr (map fst kvs)"
| "own_keys (JObjWith p kvs) = Inr (map fst kvs)"
| "own_keys (JObjectPrototype t) = Inr (filter (\<lambda>k. k \<notin> set prototype_functions) (map fst t))"
| "own_keys _ = Inr []"

definition Object_keys :: "realm \<Rightarrow> jsval \<Rightarrow> error + string list" where
  "Object_keys r a = (if keys_intact r then own_keys a else Inl TypeError)"

text \<open>The own properties of a plain object: their keys, and the own value of a key.\<close>

fun keys_of :: "jsval \<Rightarrow> string list" where
  "keys_of (JObj kvs) = map fst kvs"
| "keys_of _ = []"

fun props :: "jsval \<Rightarrow> (string \<times> jsval) list" where
  "props (JObj kvs) = kvs"
| "props _ = []"

fun own :: "jsval \<Rightarrow> string \<Rightarrow> jsval option" where
  "own (JObj kvs) k = map_of kvs k"
| "own _ k = None"

section \<open>Creating and assigning properties\<close>

text \<open>
  \<open>Object.keys\<close> and \<open>JSON.stringify\<close> enumerate the own properties
  of an object with the array indices first, in ascending numeric order, and the other
  keys after them in the order of their creation.  An array index is a canonical decimal
  numeral below \<open>2\<^sup>3\<^sup>2 - 1\<close>.
\<close>

definition is_digit :: "char \<Rightarrow> bool" where
  "is_digit c \<longleftrightarrow> c \<in> set ''0123456789''"

definition decimal_value :: "string \<Rightarrow> nat" where
  "decimal_value k = foldl (\<lambda>n c. 10 * n + (of_char c - 48)) 0 k"

definition array_index :: "string \<Rightarrow> nat option" where
  "array_index k =
     (if k \<noteq> [] \<and> list_all is_digit k \<and> (hd k \<noteq> CHR ''0'' \<or> k = ''0'')
         \<and> decimal_value k < 4294967295
      then Some (decimal_value k) else None)"

definition comes_before :: "string \<Rightarrow> string \<Rightarrow> bool" where
  "comes_before k k' =
     (case array_index k of
        None \<Rightarrow> False
      | Some n \<Rightarrow> (case array_index k' of None \<Rightarrow> True | Some n' \<Rightarrow> n < n'))"

text \<open>The place of a new own property \<open>k\<close> among the existing ones.\<close>

fun place :: "string \<Rightarrow> jsval \<Rightarrow> (string \<times> jsval) list \<Rightarrow> (string \<times> jsval) list" where
  "place k v [] = [(k, v)]"
| "place k v (kv # kvs) =
     (if comes_before k (fst kv) then (k, v) # kv # kvs else kv # place k v kvs)"

text \<open>
  Writing an own property: the value of an existing property is replaced where it
  stands, a new property is created at its place.
\<close>

definition define_own :: "(string \<times> jsval) list \<Rightarrow> string \<Rightarrow> jsval \<Rightarrow> (string \<times> jsval) list" where
  "define_own kvs k v =
     (if k \<in> fst ` set kvs then AList.update k v kvs else place k v kvs)"

text \<open>
  The assignment \<open>o[k] = v\<close> on an object \<open>o\<close> that the script has
  created.  When \<open>o\<close> owns \<open>k\<close> the value is replaced.  Otherwise the
  prototype chain decides: a data property found there is writable (the properties of a
  parsed JSON document and those of \<open>Object.prototype\<close> are), and the
  assignment creates an own property of \<open>o\<close>, as it does when the chain has no
  such property; only the accessor \<open>__proto__\<close> of \<open>Object.prototype\<close>
  is no data property, and an assignment that reaches it runs its setter, which replaces
  the prototype of \<open>o\<close> when \<open>v\<close> is an object or \<open>null\<close> and
  does nothing otherwise.  \<open>reaches_setter p\<close> tells whether the search for
  \<open>__proto__\<close> that starts at the prototype \<open>p\<close> ends at the accessor.
\<close>

fun reaches_setter :: "jsval \<Rightarrow> bool" where
  "reaches_setter (JObj kvs) \<longleftrightarrow> ''__proto__'' \<notin> fst ` set kvs"
| "reaches_setter (JObjWith p kvs) \<longleftrightarrow> ''__proto__'' \<notin> fst ` set kvs \<and> reaches_setter p"
| "reaches_setter (JObjectPrototype t) \<longleftrightarrow> True"
| "reaches_setter _ \<longleftrightarrow> False"

text \<open>
  The setter of \<open>__proto__\<close> on the object \<open>b\<close> with the own
  properties \<open>kvs\<close>, called with \<open>v\<close>.
\<close>

fun with_prototype :: "jsval \<Rightarrow> (string \<times> jsval) list \<Rightarrow> jsval \<Rightarrow> jsval" where
  "with_prototype b kvs (JObjectPrototype t) = JObj kvs"
| "with_prototype b kvs v = (if is_object v \<or> v = JNull then JObjWith v kvs else b)"

fun assign :: "jsval \<Rightarrow> string \<Rightarrow> jsval \<Rightarrow> jsval" where
  "assign (JObj kvs) k v =
     (if k = ''__proto__'' \<and> k \<notin> fst ` set kvs then with_prototype (JObj kvs) kvs v
      else JObj (define_own kvs k v))"
| "assign (JObjWith p kvs) k v =
     (if k = ''__proto__'' \<and> k \<notin> fst ` set kvs \<and> reaches_setter p
      then with_prototype (JObjWith p kvs) kvs v
      else JObjWith p (define_own kvs k v))"
| "assign b k v = b"

text \<open>
  The assignment \<open>Object.prototype[k] = v\<close>, on the properties \<open>t\<close> that
  earlier assignments have given to \<open>Object.prototype\<close>.  The members are
  writable and the object is extensible.  The prototype of \<open>Object.prototype\<close>
  is \<open>null\<close> and cannot be changed: the setter of \<open>__proto__\<close> throws a
  \<open>TypeError\<close> for an object, accepts \<open>null\<close> and ignores any other
  value.
\<close>

definition put_prototype ::
  "(string \<times> jsval) list \<Rightarrow> string \<Rightarrow> jsval \<Rightarrow> error + (string \<times> jsval) list" where
  "put_prototype t k v =
     (if k = ''__proto__'' then (if is_object v then Inl TypeError else Inr t)
      else Inr (define_own t k v))"

text \<open>
  The assignment \<open>f[k] = v\<close> on the built-in function that
  \<open>Object.prototype\<close> holds under \<open>f\<close>, on the state \<open>st\<close> that
  earlier assignments have given to the function.  The script is a module, hence strict
  code, in which an assignment that fails throws a \<open>TypeError\<close>: the properties
  \<open>name\<close> and \<open>length\<close> of a function are not writable, nor is the
  property \<open>prototype\<close> of the function \<open>Object\<close>, and the accessors
  \<open>arguments\<close> and \<open>caller\<close> that a function inherits from
  \<open>Function.prototype\<close>, as long as this is its prototype, throw.  Every other
  assignment is that to an object.
\<close>

definition put_function :: "string \<Rightarrow> jsval \<Rightarrow> string \<Rightarrow> jsval \<Rightarrow> error + jsval" where
  "put_function f st k v =
     (if k = ''name'' \<or> k = ''length'' \<or> (f = ''constructor'' \<and> k = ''prototype'')
         \<or> ((k = ''arguments'' \<or> k = ''caller'') \<and> (case st of JObj kvs \<Rightarrow> True | _ \<Rightarrow> False))
      then Inl TypeError
      else Inr (assign st k v))"

section \<open>JSON.stringify\<close>

text \<open>
  \<open>JSON.stringify(m, undefined, 2)\<close>: the text of a value at nesting depth
  \<open>d\<close>, or nothing for a value JSON has no text for (\<open>undefined\<close>, a
  function), in which case the property that holds it is left out.  The text of an
  object lists its own enumerable properties.
\<close>

definition hex_digit :: "nat \<Rightarrow> char" where
  "hex_digit n = ''0123456789abcdef'' ! (n mod 16)"

definition escape :: "char \<Rightarrow> string" where
  "escape c =
     (if c = CHR 0x22 then [CHR 0x5C, CHR 0x22]
      else if c = CHR 0x5C then [CHR 0x5C, CHR 0x5C]
      else if c = CHR 0x08 then [CHR 0x5C, CHR ''b'']
      else if c = CHR 0x0C then [CHR 0x5C, CHR ''f'']
      else if c = CHR 0x0A then [CHR 0x5C, CHR ''n'']
      else if c = CHR 0x0D then [CHR 0x5C, CHR ''r'']
      else if c = CHR 0x09 then [CHR 0x5C, CHR ''t'']
      else if (of_char c :: nat) < 32
        then [CHR 0x5C, CHR ''u'', CHR ''0'', CHR ''0'',
              hex_digit (of_char c div 16), hex_digit (of_char c)]
      else [c])"

definition quote :: "string \<Rightarrow> string" where
  "quote s = [CHR 0x22] @ concat (map escape s) @ [CHR 0x22]"

definition indent :: "nat \<Rightarrow> string" where
  "indent d = replicate (2 * d) CHR '' ''"

fun lines :: "string list \<Rightarrow> string" where
  "lines [] = []"
| "lines [p] = p"
| "lines (p # q # ps) = p @ [CHR '','', CHR 0x0A] @ lines (q # ps)"

text \<open>
  The text of an object at depth \<open>d\<close> given the texts of its properties, one
  to a line; an object without such a text is \<open>{}\<close>.
\<close>

definition braces :: "nat \<Rightarrow> string list \<Rightarrow> string" where
  "braces d ps =
     (if ps = [] then ''{}''
      else ''{'' @ [CHR 0x0A] @ lines ps @ [CHR 0x0A] @ indent d @ ''}'')"

fun stringify :: "nat \<Rightarrow> jsval \<Rightarrow> string option"
  and stringify_props :: "nat \<Rightarrow> bool \<Rightarrow> (string \<times> jsval) list \<Rightarrow> string list" where
  "stringify d JUndefined = None"
| "stringify d (JBuiltin f) = None"
| "stringify d JNull = Some ''null''"
| "stringify d (JBool b) = Some (if b then ''true'' else ''false'')"
| "stringify d (JNum n) = Some n"
| "stringify d (JStr s) = Some (quote s)"
| "stringify d (JObj kvs) = Some (braces d (stringify_props (Suc d) False kvs))"
| "stringify d (JObjWith p kvs) = Some (braces d (stringify_props (Suc d) False kvs))"
| "stringify d (JObjectPrototype t) = Some (braces d (stringify_props (Suc d) True t))"
| "stringify_props d hidden [] = []"
| "stringify_props d hidden (kv # kvs) =
     (if hidden \<and> fst kv \<in> set prototype_functions then stringify_props d hidden kvs
      else
        (case stringify d (snd kv) of
           None \<Rightarrow> stringify_props d hidden kvs
         | Some s \<Rightarrow> (indent d @ quote (fst kv) @ '': '' @ s) # stringify_props d hidden kvs))"

section \<open>The change detector\<close>

text \<open>
  The loop \<open>for (const k of m) { if (!deepEqual(a[k], b[k])) return false }\<close>
  followed by \<open>return true\<close>: it stops at the first key whose comparison throws
  or returns false.
\<close>

fun for_keys :: "(string \<Rightarrow> error + bool) \<Rightarrow> string list \<Rightarrow> error + bool" where
  "for_keys f [] = Inr True"
| "for_keys f (k # ks) =
     (case f k of
        Inl e \<Rightarrow> Inl e
      | Inr r \<Rightarrow> if r then for_keys f ks else Inr False)"

lemma for_keys_cong [fundef_cong]:
  "ks = ks' \<Longrightarrow> (\<And>k. k \<in> set ks' \<Longrightarrow> f k = g k) \<Longrightarrow> for_keys f ks = for_keys g ks'"
  by (induction ks arbitrary: ks') (auto split: sum.splits)

text \<open>
  \<open>deepEqual(a, b)\<close> in the realm \<open>r\<close>, which the comparison reads
  and does not change.
\<close>

function deepEqual :: "realm \<Rightarrow> jsval \<Rightarrow> jsval \<Rightarrow> error + bool" where
  "deepEqual r a b =
     (if typeof a \<noteq> typeof b then Inr False
      else if typeof a = T_object then
        (case Object_keys r a of
           Inl e \<Rightarrow> Inl e
         | Inr m \<Rightarrow>
             (case Object_keys r b of
                Inl e \<Rightarrow> Inl e
              | Inr n \<Rightarrow>
                  if length m \<noteq> length n then Inr False
                  else for_keys (\<lambda>k. deepEqual r (get r a k) (get r b k)) m))
      else if a \<noteq> b then Inr False
      else Inr True)"
  by pat_completeness auto

lemma size_own_value: "(k, v) \<in> set kvs \<Longrightarrow> size v < Suc (size_list (size_prod (\<lambda>_. 0) size) kvs)"
  by (induction kvs) auto

lemma size_own_key:
  "Object_keys r a = Inr m \<Longrightarrow> k \<in> set m \<Longrightarrow> size (get r a k) < size a"
  by (cases a)
     (auto simp: Object_keys_def inherited_def map_of_eq_None_iff image_iff
           split: option.splits if_splits dest!: map_of_SomeD size_own_value)

termination deepEqual
  by (relation "measure (\<lambda>(r, a, b). size a)") (auto simp: size_own_key)

declare deepEqual.simps [simp del]

subsection \<open>Revision manifests\<close>

text \<open>
  A revision manifest is an object that maps branch names to branch records, and a branch
  record is an object that maps repository names to strings; the keys of an object are
  distinct.
\<close>

fun is_branch_record :: "jsval \<Rightarrow> bool" where
  "is_branch_record (JObj kvs) = (distinct (map fst kvs) \<and> list_all (\<lambda>kv. typeof (snd kv) = T_string) kvs)"
| "is_branch_record _ = False"

fun is_manifest :: "jsval \<Rightarrow> bool" where
  "is_manifest (JObj kvs) = (distinct (map fst kvs) \<and> list_all (\<lambda>kv. is_branch_record (snd kv)) kvs)"
| "is_manifest _ = False"

text \<open>
  Equality of manifests as the specification words it: the same keys at both levels and
  the same leaf under every key, whatever the order of the keys.
\<close>

definition same_record :: "jsval \<Rightarrow> jsval \<Rightarrow> bool" where
  "same_record x y \<longleftrightarrow>
     set (keys_of x) = set (keys_of y) \<and> (\<forall>r \<in> set (keys_of x). own x r = own y r)"

definition same_manifest :: "jsval \<Rightarrow> jsval \<Rightarrow> bool" where
  "same_manifest A B \<longleftrightarrow>
     set (keys_of A) = set (keys_of B) \<and>
     (\<forall>b \<in> set (keys_of A).
        case (own A b, own B b) of
          (Some x, Some y) \<Rightarrow> same_record x y
        | _ \<Rightarrow> False)"

text \<open>
  The one shape of two manifests on which \<open>deepEqual\<close>, in the realm in which the
  script starts, and the specification part: the first owns the key \<open>__proto__\<close> with an empty branch record and the
  second does not own that key.
\<close>

definition proto_hole :: "jsval \<Rightarrow> jsval \<Rightarrow> bool" where
  "proto_hole A B \<longleftrightarrow> own A ''__proto__'' = Some (JObj []) \<and> own B ''__proto__'' = None"

text \<open>
  What \<open>deepEqual\<close> computes for one branch key \<open>k\<close> of the first
  manifest: the comparison of the two branch records when the second manifest owns
  \<open>k\<close> too; when it does not, the read \<open>b[k]\<close> falls through to the
  prototype chain, and for \<open>k = "__proto__"\<close> it returns
  \<open>Object.prototype\<close>, which compares equal to an empty record.
\<close>

definition branch_agrees :: "jsval \<Rightarrow> jsval \<Rightarrow> string \<Rightarrow> bool" where
  "branch_agrees A B k =
     (case (own A k, own B k) of
        (Some x, Some y) \<Rightarrow> same_record x y
      | (Some x, None) \<Rightarrow> k = ''__proto__'' \<and> x = JObj []
      | _ \<Rightarrow> False)"

section \<open>Configuration and the remote services\<close>

text \<open>
  The script's \<open>Config\<close>.  The fields of \<open>ConfigMeta\<close> (\<open>owner\<close>, \<open>name\<close>,
  \<open>branch\<close>, \<open>file\<close>) carry the prefix \<open>meta_\<close> here,
  since a record field is a constant of the theory.  The script holds one configuration in
  a module constant; the functions below take it as a parameter, as
  \<open>fetchLatestMeta\<close>, \<open>fetchCurrentMeta\<close> and \<open>writeMeta\<close> do.
\<close>

record ConfigSource =
  owner :: string
  name :: string
  branch :: string
  entryPoint :: string

record ConfigMeta =
  meta_owner :: string
  meta_name :: string
  meta_branch :: string
  meta_file :: string

record Config =
  meta :: ConfigMeta
  sources :: "ConfigSource list"

text \<open>
  What is outside the script: the reply to an HTTP request (none when \<open>fetch\<close>
  rejects; otherwise the status and the body as \<open>r.json()\<close> parses it, none
  when the body is not JSON), the fate of the \<open>git\<close> child process given its
  arguments (the \<open>error\<close> event, or the \<open>close\<close> event with the exit
  code, none when a signal ended the process), and the extractor given the entry point
  and the \<open>tsconfig\<close> file (it throws, it converts to no project, or it yields
  a project with the JSON text it generates for it).  Every request is answered or
  fails and every child process ends or fails to start: a run in which the platform
  never calls back is not modelled.  The environment also fixes the
  directory of the script, the temporary directory of the host, the \<open>name\<close> of
  \<open>package.json\<close>, which is not among the sources, and the random suffix that
  \<open>mkdtemp\<close> picks.
\<close>

datatype response = Unreachable | Response nat "jsval option"

datatype child_event = Spawn_failed | Close "int option"

datatype extraction = Crashed | No_project | Project string

type_synonym path = "string list"

record env =
  http :: "string \<Rightarrow> response"
  git :: "string list \<Rightarrow> child_event"
  typedoc :: "string \<Rightarrow> string \<Rightarrow> extraction"
  script_dir :: path
  tmpdir :: path
  pack_name :: string
  mkdtemp_suffix :: string

subsection \<open>The revision oracle client\<close>

definition sha_url :: "ConfigSource \<Rightarrow> string" where
  "sha_url s =
     ''https://api.github.com/repos/'' @ owner s @ ''/'' @ name s @ ''/branches/'' @ branch s"

text \<open>
  \<open>fetchSHA\<close>, for a reply that arrives when the realm is \<open>r\<close>: the
  reads of \<open>j.commit.sha\<close> go through the prototype chain.
\<close>

definition fetchSHA :: "env \<Rightarrow> realm \<Rightarrow> ConfigSource \<Rightarrow> error + jsval" where
  "fetchSHA e r s =
     (case http e (sha_url s) of
        Unreachable \<Rightarrow> Inl NetworkError
      | Response status body \<Rightarrow>
          if status \<noteq> 200 then Inl (Error (''Failed to fetch commit SHA for '' @ name s))
          else
            (case body of
               None \<Rightarrow> Inl SyntaxError
             | Some j \<Rightarrow>
                 (case member r j ''commit'' of
                    Inl x \<Rightarrow> Inl x
                  | Inr commit \<Rightarrow> member r commit ''sha'')))"

text \<open>
  \<open>fetchLatestMeta\<close> maps an \<open>async\<close> function over the sources.  Each call
  runs at once up to its first \<open>await\<close>: it reads \<open>m[s.branch]\<close>, installs
  an empty record when the read gives \<open>undefined\<close>, and starts the lookup.
  \<open>install\<close> is this synchronous part, source after source.  It is the first
  thing the script does, in the realm in which the script starts, and it assigns to
  \<open>m\<close> only.
\<close>

fun install :: "jsval \<Rightarrow> ConfigSource list \<Rightarrow> jsval" where
  "install m [] = m"
| "install m (s # ss) =
     install
       (if get pristine m (branch s) = JUndefined then assign m (branch s) (JObj []) else m) ss"

text \<open>
  The assignment \<open>b[s.name] = v\<close> that a call performs when its lookup has
  delivered \<open>v\<close>.  The reference \<open>b\<close> was taken before the
  \<open>await\<close>; a record installed under a branch is never replaced, so
  \<open>b\<close> is the record that \<open>m\<close> owns under \<open>s.branch\<close> when there
  is one.  When there is none, \<open>b\<close> is what the read \<open>m[s.branch]\<close> had
  found in the prototype chain: the object \<open>Object.prototype\<close> for the branch
  \<open>__proto__\<close>, or the function that \<open>Object.prototype\<close> held under
  the name of the branch.  The assignment then goes to that built-in object: it leaves
  \<open>m\<close> as it is and changes the realm, or throws.
\<close>

definition store :: "jsval \<Rightarrow> realm \<Rightarrow> ConfigSource \<Rightarrow> jsval \<Rightarrow> error + jsval \<times> realm" where
  "store m r s v =
     (case own m (branch s) of
        Some b \<Rightarrow> Inr (JObj (AList.update (branch s) (assign b (name s) v) (props m)), r)
      | None \<Rightarrow>
          (case get pristine m (branch s) of
             JObjectPrototype t \<Rightarrow>
               (case put_prototype (object_prototype r) (name s) v of
                  Inl x \<Rightarrow> Inl x
                | Inr t' \<Rightarrow> Inr (m, r\<lparr>object_prototype := t'\<rparr>))
           | JBuiltin f \<Rightarrow>
               (case put_function f (function_state r f) (name s) v of
                  Inl x \<Rightarrow> Inl x
                | Inr st \<Rightarrow> Inr (m, r\<lparr>function_objects := AList.update f st (function_objects r)\<rparr>))
           | _ \<Rightarrow> Inr (m, r)))"

text \<open>
  What follows the \<open>await\<close> of a call when the reply of its lookup arrives:
  \<open>fetchSHA\<close> reads the reply and the assignment stores the result, or one of
  the two throws.
\<close>

definition resolve :: "env \<Rightarrow> jsval \<Rightarrow> realm \<Rightarrow> ConfigSource \<Rightarrow> error + jsval \<times> realm" where
  "resolve e m r s =
     (case fetchSHA e r s of
        Inl x \<Rightarrow> Inl x
      | Inr v \<Rightarrow> store m r s v)"

text \<open>
  The lookups complete in an order the script does not control: \<open>settle\<close> takes
  the sources by their indices in the order of completion, skipping an index that is out
  of range or has completed already.  \<open>Promise.all\<close> rejects with the first
  rejection.  \<open>fetchLatestMeta\<close> completes the given order by the indices in
  their own order, so that every list of indices stands for a complete run.  It returns
  the manifest together with the realm that the assignments have left.
\<close>

fun settle ::
  "env \<Rightarrow> ConfigSource list \<Rightarrow> nat list \<Rightarrow> nat list \<Rightarrow> jsval \<Rightarrow> realm \<Rightarrow> error + jsval \<times> realm" where
  "settle e ss [] finished m r = Inr (m, r)"
| "settle e ss (i # order) finished m r =
     (if length ss \<le> i \<or> i \<in> set finished then settle e ss order finished m r
      else
        (case resolve e m r (ss ! i) of
           Inl x \<Rightarrow> Inl x
         | Inr (m', r') \<Rightarrow> settle e ss order (i # finished) m' r'))"

definition fetchLatestMeta :: "env \<Rightarrow> Config \<Rightarrow> nat list \<Rightarrow> error + jsval \<times> realm" where
  "fetchLatestMeta e c order =
     settle e (sources c) (order @ [0..<length (sources c)]) []
       (install (JObj []) (sources c)) pristine"

text \<open>
  The order in which the lookups of \<open>n\<close> sources complete in the run that a list
  of indices stands for.  \<open>completes\<close> follows the list as \<open>settle\<close>
  does and collects the indices that complete; a lookup that fails completes too.
\<close>

fun completes :: "nat \<Rightarrow> nat list \<Rightarrow> nat list \<Rightarrow> nat list" where
  "completes n [] finished = []"
| "completes n (i # order) finished =
     (if n \<le> i \<or> i \<in> set finished then completes n order finished
      else i # completes n order (i # finished))"

definition completion :: "nat \<Rightarrow> nat list \<Rightarrow> nat list" where
  "completion n order = completes n (order @ [0..<n]) []"

subsection \<open>The manifest store, reading\<close>

definition meta_url :: "Config \<Rightarrow> string" where
  "meta_url c =
     ''https://raw.githubusercontent.com/'' @ meta_owner (meta c) @ ''/'' @ meta_name (meta c)
       @ ''/'' @ meta_branch (meta c) @ ''/'' @ meta_file (meta c)"

definition fetchCurrentMeta :: "env \<Rightarrow> Config \<Rightarrow> error + jsval" where
  "fetchCurrentMeta e c =
     (case http e (meta_url c) of
        Unreachable \<Rightarrow> Inl NetworkError
      | Response status body \<Rightarrow>
          if status \<noteq> 200 then Inr (JObj [])
          else (case body of None \<Rightarrow> Inl SyntaxError | Some j \<Rightarrow> Inr j))"

section \<open>Paths and the file system\<close>

text \<open>
  A path is absolute and normalised: the list of its segments below the root.
  \<open>join\<close> is \<open>path.join\<close> of a path and a string: the string is cut at
  the slashes, empty segments and \<open>.\<close> are dropped, and \<open>..\<close> removes
  the segment before it (at the root it is dropped).
\<close>

fun split_slash :: "string \<Rightarrow> string list" where
  "split_slash [] = [[]]"
| "split_slash (c # cs) =
     (if c = CHR ''/'' then [] # split_slash cs
      else (case split_slash cs of [] \<Rightarrow> [[c]] | x # xs \<Rightarrow> (c # x) # xs))"

fun walk :: "path \<Rightarrow> string list \<Rightarrow> path" where
  "walk p [] = p"
| "walk p (x # xs) =
     (if x = [] \<or> x = ''.'' then walk p xs
      else if x = ''..'' then walk (butlast p) xs
      else walk (p @ [x]) xs)"

definition join :: "path \<Rightarrow> string \<Rightarrow> path" where
  "join p s = walk p (split_slash s)"

definition path_string :: "path \<Rightarrow> string" where
  "path_string p = (if p = [] then ''/'' else concat (map (\<lambda>x. CHR ''/'' # x) p))"

text \<open>
  The effects of a run in the order in which they take place.  An HTTP request and a call
  of the extractor are recorded whatever their outcome; a file system call and a child
  process are recorded when they succeed, respectively when the process was spawned.
\<close>

datatype effect =
    HttpGet string
  | ConsoleInfo string
  | Mkdir path
  | Mkdtemp path
  | Spawn string "string list"
  | Typedoc string string
  | WriteFile path string
  | Rm path
  | Rmdir path

text \<open>
  The state a run works on: the directories and the files of the host, the contents of
  the files, and the effects so far.  The calls of \<open>node:fs\<close> fail for the reasons
  the state decides (a path that exists already, a parent that is missing, a directory
  that is not empty); failures of the host beyond these are not modelled, and a call that
  fails changes nothing.
\<close>

record world =
  dirs :: "path set"
  files :: "path set"
  content :: "path \<Rightarrow> string"
  trace :: "effect list"

definition log :: "effect \<Rightarrow> world \<Rightarrow> world" where
  "log x w = w\<lparr>trace := trace w @ [x]\<rparr>"

definition existsSync :: "world \<Rightarrow> path \<Rightarrow> bool" where
  "existsSync w p \<longleftrightarrow> p = [] \<or> p \<in> dirs w \<or> p \<in> files w"

definition is_directory :: "world \<Rightarrow> path \<Rightarrow> bool" where
  "is_directory w p \<longleftrightarrow> p = [] \<or> p \<in> dirs w"

definition mkdir :: "path \<Rightarrow> world \<Rightarrow> (error + unit) \<times> world" where
  "mkdir p w =
     (if existsSync w p \<or> \<not> is_directory w (butlast p) then (Inl FsError, w)
      else (Inr (), log (Mkdir p) (w\<lparr>dirs := insert p (dirs w)\<rparr>)))"

text \<open>
  \<open>mkdtemp(prefix)\<close> creates the directory whose path is the prefix followed by
  six random characters, chosen so that the path is new; the environment supplies them.
\<close>

definition temp_path :: "path \<Rightarrow> string \<Rightarrow> path" where
  "temp_path d r =
     (if d = [] then [''-'' @ r] else butlast d @ [last d @ ''-'' @ r])"

definition mkdtemp :: "path \<Rightarrow> world \<Rightarrow> (error + path) \<times> world" where
  "mkdtemp p w =
     (if existsSync w p \<or> \<not> is_directory w (butlast p) then (Inl FsError, w)
      else (Inr p, log (Mkdtemp p) (w\<lparr>dirs := insert p (dirs w)\<rparr>)))"

text \<open>\<open>rm(p, {recursive: true, force: true})\<close> removes \<open>p\<close> and all below it.\<close>

definition rm :: "path \<Rightarrow> world \<Rightarrow> (error + unit) \<times> world" where
  "rm p w =
     (Inr (), log (Rm p)
        (w\<lparr>dirs := Set.filter (\<lambda>q. \<not> prefix p q) (dirs w),
           files := Set.filter (\<lambda>q. \<not> prefix p q) (files w)\<rparr>))"

definition has_entries :: "world \<Rightarrow> path \<Rightarrow> bool" where
  "has_entries w p \<longleftrightarrow> (\<exists>q \<in> dirs w \<union> files w. q \<noteq> [] \<and> butlast q = p)"

definition rmdir :: "path \<Rightarrow> world \<Rightarrow> (error + unit) \<times> world" where
  "rmdir p w =
     (if p \<notin> dirs w \<or> has_entries w p then (Inl FsError, w)
      else (Inr (), log (Rmdir p) (w\<lparr>dirs := dirs w - {p}\<rparr>)))"

definition writeFile :: "path \<Rightarrow> string \<Rightarrow> world \<Rightarrow> (error + unit) \<times> world" where
  "writeFile f s w =
     (if is_directory w f \<or> \<not> is_directory w (butlast f) then (Inl FsError, w)
      else (Inr (), log (WriteFile f s)
              (w\<lparr>files := insert f (files w), content := (content w)(f := s)\<rparr>)))"

section \<open>The steps of the pipeline\<close>

definition rootDir :: "env \<Rightarrow> path" where
  "rootDir e = script_dir e"

definition distDir :: "path \<Rightarrow> path" where
  "distDir r = join r ''dist''"

text \<open>
  The path that \<open>createTempDir\<close> creates: \<open>mkdtemp\<close> of
  \<open>join(tmpdir(), pack.name)\<close> followed by a dash.
\<close>

definition workspace :: "env \<Rightarrow> path" where
  "workspace e = temp_path (join (tmpdir e) (pack_name e)) (mkdtemp_suffix e)"

definition createTempDir :: "env \<Rightarrow> world \<Rightarrow> (error + path) \<times> world" where
  "createTempDir e w = mkdtemp (workspace e) w"

text \<open>
  \<open>cloneRepo\<close> resolves on the \<open>close\<close> event of the child process, with
  the exit code as the value of the promise, and rejects on its \<open>error\<close> event.
  What the clone writes lies below the destination and goes with it; the model leaves it
  out of the state.
\<close>

definition clone_args :: "path \<Rightarrow> ConfigSource \<Rightarrow> string list" where
  "clone_args d s =
     [''clone'', ''--progress'', ''--depth'', ''1'', ''--branch'', branch s, ''--single-branch'',
      ''https://github.com/'' @ owner s @ ''/'' @ name s @ ''.git'', path_string d]"

definition cloneRepo :: "env \<Rightarrow> path \<Rightarrow> ConfigSource \<Rightarrow> world \<Rightarrow> (error + int option) \<times> world" where
  "cloneRepo e d s w =
     (case git e (clone_args d s) of
        Spawn_failed \<Rightarrow> (Inl SpawnError, w)
      | Close code \<Rightarrow> (Inr code, log (Spawn ''git'' (clone_args d s)) w))"

definition tsconfigFile :: "path \<Rightarrow> path" where
  "tsconfigFile d = join d ''tsconfig.json''"

text \<open>
  The extractor writes its result with a function of its own, which first creates the
  directory of the file and every directory above it that is missing, as
  \<open>mkdir\<close> with the option \<open>recursive\<close> does, and then calls
  \<open>writeFile\<close>.  The creation fails when one of these paths is a file; the
  directories it creates are not recorded among the effects.
\<close>

definition make_parents :: "path \<Rightarrow> world \<Rightarrow> (error + unit) \<times> world" where
  "make_parents f w =
     (if \<exists>q \<in> set (prefixes (butlast f)). q \<in> files w then (Inl FsError, w)
      else (Inr (), w\<lparr>dirs := dirs w \<union> (set (prefixes (butlast f)) - {[]})\<rparr>))"

definition write_artifact :: "path \<Rightarrow> string \<Rightarrow> world \<Rightarrow> (error + unit) \<times> world" where
  "write_artifact f s w =
     (case make_parents f w of
        (Inl x, w') \<Rightarrow> (Inl x, w')
      | (Inr _, w') \<Rightarrow> writeFile f s w')"

text \<open>
  \<open>generateJSON\<close> with the options \<open>{entryPoints: [entry], tsconfig}\<close>: a
  crash of \<open>bootstrapWithPlugins\<close>, \<open>convert\<close> or \<open>generateJson\<close>
  propagates, a conversion to \<open>undefined\<close> throws
  \<open>Error("Project is missing")\<close>, and \<open>generateJson\<close> writes the text of
  the project to \<open>f\<close>.
\<close>

definition generateJSON :: "env \<Rightarrow> path \<times> path \<Rightarrow> path \<Rightarrow> world \<Rightarrow> (error + unit) \<times> world" where
  "generateJSON e opts f w =
     (let entry = path_string (fst opts); tsconfig = path_string (snd opts);
          w' = log (Typedoc entry tsconfig) w
      in case typedoc e entry tsconfig of
           Crashed \<Rightarrow> (Inl ExtractorError, w')
         | No_project \<Rightarrow> (Inl (Error ''Project is missing''), w')
         | Project doc \<Rightarrow> write_artifact f doc w')"

definition rf :: "path \<Rightarrow> world \<Rightarrow> (error + unit) \<times> world" where
  "rf p w = rm p w"

definition writeMeta :: "Config \<Rightarrow> path \<Rightarrow> jsval \<Rightarrow> world \<Rightarrow> (error + unit) \<times> world" where
  "writeMeta c d m w =
     (let f = join d (meta_file (meta c))
      in case stringify 0 m of
           None \<Rightarrow> (Inl TypeError, w)
         | Some s \<Rightarrow> writeFile f s w)"

section \<open>The orchestrator\<close>

text \<open>
  The \<open>async\<close> function that \<open>build\<close> maps over the sources awaits five
  operations in turn: \<open>mkdir(st)\<close>, \<open>cloneRepo(st, s)\<close>,
  \<open>mkdir(sd)\<close> (skipped when \<open>existsSync(sd)\<close> holds at the moment the
  clone has closed), \<open>generateJSON(...)\<close> and \<open>rf(st)\<close>.  The stage of a
  source names the operation it is waiting for.
\<close>

datatype stage = Reserve | Clone | Make_dist | Extract | Release | Finished

definition source_temp :: "path \<Rightarrow> ConfigSource \<Rightarrow> path" where
  "source_temp td s = join td (branch s)"

definition source_dist :: "path \<Rightarrow> ConfigSource \<Rightarrow> path" where
  "source_dist dd s = join dd (branch s)"

definition artifact :: "path \<Rightarrow> ConfigSource \<Rightarrow> path" where
  "artifact dd s = join (source_dist dd s) (name s @ ''.json'')"

definition advance :: "stage \<Rightarrow> (error + 'a) \<times> world \<Rightarrow> (error + stage) \<times> world" where
  "advance g r = (case r of (Inl x, w) \<Rightarrow> (Inl x, w) | (Inr _, w) \<Rightarrow> (Inr g, w))"

text \<open>The operation a source is waiting for takes place, and the source moves on.\<close>

fun task :: "env \<Rightarrow> path \<Rightarrow> path \<Rightarrow> ConfigSource \<Rightarrow> stage \<Rightarrow> world \<Rightarrow> (error + stage) \<times> world" where
  "task e td dd s Reserve w = advance Clone (mkdir (source_temp td s) w)"
| "task e td dd s Clone w =
     (case cloneRepo e (source_temp td s) s w of
        (Inl x, w') \<Rightarrow> (Inl x, w')
      | (Inr _, w') \<Rightarrow> (Inr (if existsSync w' (source_dist dd s) then Extract else Make_dist), w'))"
| "task e td dd s Make_dist w = advance Extract (mkdir (source_dist dd s) w)"
| "task e td dd s Extract w =
     advance Release
       (generateJSON e
          (join (source_temp td s) (entryPoint s), tsconfigFile (source_temp td s))
          (artifact dd s) w)"
| "task e td dd s Release w = advance Finished (rf (source_temp td s) w)"
| "task e td dd s Finished w = (Inr Finished, w)"

text \<open>
  The sources proceed independently; the operations of different sources take place in
  an order the script does not control.  \<open>run_tasks\<close> follows a schedule, a list
  of indices of sources: each entry lets the pending operation of that source take place.
  \<open>Promise.all\<close> rejects with the first rejection, and the rejection leaves
  \<open>build\<close> at once: the run ends in the state it has reached.
\<close>

fun run_tasks ::
  "env \<Rightarrow> path \<Rightarrow> path \<Rightarrow> ConfigSource list \<Rightarrow> nat list \<Rightarrow> stage list \<Rightarrow> world
     \<Rightarrow> (error + stage list) \<times> world" where
  "run_tasks e td dd ss [] gs w = (Inr gs, w)"
| "run_tasks e td dd ss (i # schedule) gs w =
     (if length ss \<le> i then run_tasks e td dd ss schedule gs w
      else
        (case task e td dd (ss ! i) (gs ! i) w of
           (Inl x, w') \<Rightarrow> (Inl x, w')
         | (Inr g, w') \<Rightarrow> run_tasks e td dd ss schedule (gs[i := g]) w'))"

text \<open>
  Five rounds over all sources complete every source, so a schedule followed by them
  stands for a complete run whatever it is.
\<close>

definition build_all ::
  "env \<Rightarrow> path \<Rightarrow> path \<Rightarrow> ConfigSource list \<Rightarrow> nat list \<Rightarrow> world \<Rightarrow> (error + stage list) \<times> world" where
  "build_all e td dd ss schedule w =
     run_tasks e td dd ss (schedule @ concat (replicate 5 [0..<length ss]))
       (replicate (length ss) Reserve) w"

datatype outcome = No_updates | Built

text \<open>
  \<open>build\<close> of the variant with change detection.  \<open>order\<close> is the order in
  which the revision lookups complete and \<open>schedule\<close> the order in which the
  operations of the sources take place.  \<open>deepEqual\<close> runs in the realm that
  \<open>fetchLatestMeta\<close> has left.  The result tells the two ways in which the
  promise of \<open>build\<close> is fulfilled apart, and carries the error with which it is
  rejected.
\<close>

definition build :: "Config \<Rightarrow> env \<Rightarrow> nat list \<Rightarrow> nat list \<Rightarrow> world \<Rightarrow> (error + outcome) \<times> world" where
  "build c e order schedule w0 =
     (let w1 = w0\<lparr>trace := trace w0 @ map (\<lambda>s. HttpGet (sha_url s)) (sources c)\<rparr> in
      case fetchLatestMeta e c order of
        Inl x \<Rightarrow> (Inl x, w1)
      | Inr (latest, r) \<Rightarrow>
     (let w2 = log (HttpGet (meta_url c)) w1 in
      case fetchCurrentMeta e c of
        Inl x \<Rightarrow> (Inl x, w2)
      | Inr current \<Rightarrow>
     (case deepEqual r current latest of
        Inl x \<Rightarrow> (Inl x, w2)
      | Inr True \<Rightarrow> (Inr No_updates, log (ConsoleInfo ''No updates'') w2)
      | Inr False \<Rightarrow>
     (let rd = rootDir e; dd = distDir rd in
      case (if \<not> existsSync w2 dd then mkdir dd w2 else (Inr (), w2)) of
        (Inl x, w3) \<Rightarrow> (Inl x, w3)
      | (Inr _, w3) \<Rightarrow>
     (case createTempDir e w3 of
        (Inl x, w4) \<Rightarrow> (Inl x, w4)
      | (Inr td, w4) \<Rightarrow>
     (case build_all e td dd (sources c) schedule w4 of
        (Inl x, w5) \<Rightarrow> (Inl x, w5)
      | (Inr _, w5) \<Rightarrow>
     (case rmdir td w5 of
        (Inl x, w6) \<Rightarrow> (Inl x, w6)
      | (Inr _, w6) \<Rightarrow>
     (case writeMeta c dd latest w6 of
        (Inl x, w7) \<Rightarrow> (Inl x, w7)
      | (Inr _, w7) \<Rightarrow> (Inr Built, w7)))))))))"

section \<open>Scenarios\<close>

text \<open>
  The configuration of the specification's scenarios: the source \<open>o/r1\<close> at
  branch \<open>main\<close>, with the manifest location of the script.  Two more
  sources, \<open>o/r2\<close> at branch \<open>dev\<close> and \<open>o/r3\<close> at branch
  \<open>main\<close>, whose revision lookup is answered with status 404; \<open>o/r4\<close>
  at branch \<open>main\<close>; \<open>p/r1\<close> at branch \<open>main\<close>, a
  repository of another owner with the name and the branch of the first source; and
  \<open>o/r1\<close> at a branch called \<open>constructor\<close>.  The host has the
  script in \<open>/app\<close> and its temporary directory at \<open>/tmp\<close>.
\<close>

definition source_r1 :: ConfigSource where
  "source_r1 = \<lparr>owner = ''o'', name = ''r1'', branch = ''main'', entryPoint = ''src/index.ts''\<rparr>"

definition source_r2 :: ConfigSource where
  "source_r2 = \<lparr>owner = ''o'', name = ''r2'', branch = ''dev'', entryPoint = ''src/index.ts''\<rparr>"

definition source_r3 :: ConfigSource where
  "source_r3 = \<lparr>owner = ''o'', name = ''r3'', branch = ''main'', entryPoint = ''src/index.ts''\<rparr>"

definition source_r4 :: ConfigSource where
  "source_r4 = \<lparr>owner = ''o'', name = ''r4'', branch = ''main'', entryPoint = ''src/index.ts''\<rparr>"

definition source_fork :: ConfigSource where
  "source_fork = \<lparr>owner = ''p'', name = ''r1'', branch = ''main'', entryPoint = ''src/index.ts''\<rparr>"

definition source_ctor :: ConfigSource where
  "source_ctor =
     \<lparr>owner = ''o'', name = ''r1'', branch = ''constructor'', entryPoint = ''src/index.ts''\<rparr>"

definition script_meta :: ConfigMeta where
  "script_meta =
     \<lparr>meta_owner = ''vanyauhalin'', meta_name = ''onlyoffice-docspace-plugin-sdk-declarations'',
      meta_branch = ''dist'', meta_file = ''meta.json''\<rparr>"

definition config_of :: "ConfigSource list \<Rightarrow> Config" where
  "config_of ss = \<lparr>meta = script_meta, sources = ss\<rparr>"

text \<open>The reply of the revision lookup that carries the revision \<open>sha\<close>.\<close>

definition branch_reply :: "string \<Rightarrow> response" where
  "branch_reply sha =
     Response 200 (Some (JObj [(''name'', JStr ''main''), (''commit'', JObj [(''sha'', JStr sha)])]))"

text \<open>
  A host given the replies to HTTP requests, the fate of the clones and the results of
  the extractor.  The clones either all close with exit code 0, or all close with a given
  exit code, or fail to spawn for one branch (the sixth argument of the command) and
  close with exit code 0 for the others.
\<close>

definition host ::
  "(string \<Rightarrow> response) \<Rightarrow> (string list \<Rightarrow> child_event) \<Rightarrow> (string \<Rightarrow> string \<Rightarrow> extraction) \<Rightarrow> env" where
  "host h g t =
     \<lparr>http = h, git = g, typedoc = t, script_dir = [''app''], tmpdir = [''tmp''],
      pack_name = ''declarations'', mkdtemp_suffix = ''Ab3dE9''\<rparr>"

text \<open>The revision lookups of the scenarios and the published manifest.\<close>

definition lookups :: "response \<Rightarrow> string \<Rightarrow> response" where
  "lookups published u =
     (if u = sha_url source_r1 then branch_reply ''abc123''
      else if u = sha_url source_r2 then branch_reply ''def456''
      else if u = sha_url source_r4 then branch_reply ''0a1b2c''
      else if u = sha_url source_fork then branch_reply ''fff999''
      else if u = sha_url source_ctor then branch_reply ''c0ffee''
      else if u = meta_url (config_of []) then published
      else Response 404 None)"

definition clones_close :: "string list \<Rightarrow> child_event" where
  "clones_close args = Close (Some 0)"

definition clones_exit :: "int \<Rightarrow> string list \<Rightarrow> child_event" where
  "clones_exit code args = Close (Some code)"

definition clones_fail_for :: "string \<Rightarrow> string list \<Rightarrow> child_event" where
  "clones_fail_for b args = (if args ! 5 = b then Spawn_failed else Close (Some 0))"

definition extracts :: "string \<Rightarrow> string \<Rightarrow> extraction" where
  "extracts entry tsconfig = Project ''{}''"

definition disk :: world where
  "disk = \<lparr>dirs = {[''app''], [''tmp'']}, files = {}, content = (\<lambda>_. []), trace = []\<rparr>"

section \<open>What a resolved manifest holds\<close>

text \<open>
  The leaf of an object of objects under a branch and a repository name; the shape of
  the object that \<open>fetchLatestMeta\<close> builds (an object whose values are objects,
  with distinct keys at both levels); and its leaves as triples of branch, repository
  name and value, in the order of enumeration.
\<close>

definition entry :: "jsval \<Rightarrow> string \<Rightarrow> string \<Rightarrow> jsval option" where
  "entry m k r = (case own m k of None \<Rightarrow> None | Some b \<Rightarrow> own b r)"

fun is_record :: "jsval \<Rightarrow> bool" where
  "is_record (JObj kvs) = distinct (map fst kvs)"
| "is_record _ = False"

fun two_level :: "jsval \<Rightarrow> bool" where
  "two_level (JObj kvs) = (distinct (map fst kvs) \<and> list_all (\<lambda>kv. is_record (snd kv)) kvs)"
| "two_level _ = False"

definition leaves :: "jsval \<Rightarrow> (string \<times> string \<times> jsval) list" where
  "leaves m = concat (map (\<lambda>kb. map (\<lambda>rv. (fst kb, fst rv, snd rv)) (props (snd kb))) (props m))"

text \<open>
  A branch is ordinary when it is not the name of a member of
  \<open>Object.prototype\<close>, and a source has ordinary keys when its branch is
  ordinary and its repository is not called \<open>__proto__\<close>.
\<close>

definition ordinary_branch :: "string \<Rightarrow> bool" where
  "ordinary_branch b \<longleftrightarrow> b \<notin> set (''__proto__'' # prototype_functions)"

definition ordinary_keys :: "ConfigSource \<Rightarrow> bool" where
  "ordinary_keys s \<longleftrightarrow> ordinary_branch (branch s) \<and> name s \<noteq> ''__proto__''"

text \<open>
  Among the sources with the branch \<open>k\<close> and the repository name \<open>n\<close>, the
  index of the one whose lookup completed last, given the order of completion.
\<close>

definition last_writer :: "ConfigSource list \<Rightarrow> nat list \<Rightarrow> string \<Rightarrow> string \<Rightarrow> nat option" where
  "last_writer ss done k n = find (\<lambda>j. branch (ss ! j) = k \<and> name (ss ! j) = n) (rev done)"

section \<open>Vocabulary for the properties of a run\<close>

text \<open>
  The output root and the manifest file of a run, the effects that a run has added to the
  trace, the result of the extractor for a source and the text it generates, and the
  progress of a source as a number.
\<close>

definition output_root :: "env \<Rightarrow> path" where
  "output_root e = distDir (rootDir e)"

definition manifest_file :: "Config \<Rightarrow> env \<Rightarrow> path" where
  "manifest_file c e = join (output_root e) (meta_file (meta c))"

definition events :: "world \<Rightarrow> world \<Rightarrow> effect list" where
  "events w w' = drop (length (trace w)) (trace w')"

definition extraction_of :: "env \<Rightarrow> path \<Rightarrow> ConfigSource \<Rightarrow> extraction" where
  "extraction_of e td s =
     typedoc e (path_string (join (source_temp td s) (entryPoint s)))
       (path_string (tsconfigFile (source_temp td s)))"

definition doc_of :: "env \<Rightarrow> path \<Rightarrow> ConfigSource \<Rightarrow> string" where
  "doc_of e td s = (case extraction_of e td s of Project d \<Rightarrow> d | _ \<Rightarrow> [])"

fun rank :: "stage \<Rightarrow> nat" where
  "rank Reserve = 0"
| "rank Clone = 1"
| "rank Make_dist = 2"
| "rank Extract = 3"
| "rank Release = 4"
| "rank Finished = 5"

fun is_write :: "effect \<Rightarrow> bool" where
  "is_write (WriteFile f s) = True"
| "is_write _ = False"

text \<open>
  Names that are paths of their own: a branch whose segments between the slashes are
  not empty and not \<open>.\<close> or \<open>..\<close> (no reference name of the version
  control system has such a segment), a repository name without a slash, and a manifest
  file name that is one such segment.  On the host, the workspace and the output root do
  not lie inside one another.
\<close>

definition safe_segment :: "string \<Rightarrow> bool" where
  "safe_segment x \<longleftrightarrow> x \<noteq> [] \<and> x \<noteq> ''.'' \<and> x \<noteq> ''..'' \<and> CHR ''/'' \<notin> set x"

definition safe_branch :: "string \<Rightarrow> bool" where
  "safe_branch b \<longleftrightarrow> list_all (\<lambda>x. x \<noteq> [] \<and> x \<noteq> ''.'' \<and> x \<noteq> ''..'') (split_slash b)"

definition safe_names :: "Config \<Rightarrow> bool" where
  "safe_names c \<longleftrightarrow>
     list_all (\<lambda>s. safe_branch (branch s) \<and> CHR ''/'' \<notin> set (name s)) (sources c)
     \<and> safe_segment (meta_file (meta c))"

definition separate :: "env \<Rightarrow> bool" where
  "separate e \<longleftrightarrow>
     \<not> prefix (workspace e) (output_root e) \<and> \<not> prefix (output_root e) (workspace e)"

text \<open>
  A stretch of a run is quiet when it leaves the files and their contents as they are,
  removes no directory, and has no effects but HTTP requests, console messages and new
  directories.
\<close>

fun is_quiet :: "effect \<Rightarrow> bool" where
  "is_quiet (HttpGet u) = True"
| "is_quiet (ConsoleInfo s) = True"
| "is_quiet (Mkdir p) = True"
| "is_quiet _ = False"

definition quiet :: "world \<Rightarrow> world \<Rightarrow> bool" where
  "quiet w w' \<longleftrightarrow>
     files w' = files w \<and> content w' = content w \<and> dirs w \<subseteq> dirs w' \<and>
     (\<exists>evs. trace w' = trace w @ evs \<and> list_all is_quiet evs)"

text \<open>
  The part of \<open>build\<close> that follows the preparation of the output root: the
  workspace, the sources, the removal of the workspace and the manifest.
\<close>

definition finish :: "Config \<Rightarrow> env \<Rightarrow> jsval \<Rightarrow> nat list \<Rightarrow> world \<Rightarrow> (error + outcome) \<times> world" where
  "finish c e latest schedule w3 =
     (case createTempDir e w3 of
        (Inl x, w4) \<Rightarrow> (Inl x, w4)
      | (Inr td, w4) \<Rightarrow>
     (case build_all e td (output_root e) (sources c) schedule w4 of
        (Inl x, w5) \<Rightarrow> (Inl x, w5)
      | (Inr _, w5) \<Rightarrow>
     (case rmdir td w5 of
        (Inl x, w6) \<Rightarrow> (Inl x, w6)
      | (Inr _, w6) \<Rightarrow>
     (case writeMeta c (output_root e) latest w6 of
        (Inl x, w7) \<Rightarrow> (Inl x, w7)
      | (Inr _, w7) \<Rightarrow> (Inr Built, w7)))))"

section \<open>Evaluating the scenarios\<close>

lemmas scenario_defs =
  source_r1_def source_r2_def source_r3_def source_r4_def source_fork_def source_ctor_def
  script_meta_def config_of_def branch_reply_def host_def lookups_def clones_close_def
  clones_exit_def clones_fail_for_def extracts_def disk_def sha_url_def meta_url_def

lemmas manifest_defs =
  fetchLatestMeta_def resolve_def fetchSHA_def store_def define_own_def inherited_def
  prototype_functions_def pristine_def upt_rec

section \<open>Properties of the change detector\<close>

lemma object_prototype_pristine [simp]: "object_prototype pristine = []"
  by (simp add: pristine_def)

lemma function_objects_pristine [simp]: "function_objects pristine = []"
  by (simp add: pristine_def)

lemma keys_intact_pristine [simp]: "keys_intact pristine"
  by (simp add: keys_intact_def function_state_def)

lemma Object_keys_pristine [simp]: "Object_keys pristine a = own_keys a"
  by (simp add: Object_keys_def)

lemma for_keys_all:
  "(\<And>k. k \<in> set ks \<Longrightarrow> f k = Inr (P k)) \<Longrightarrow> for_keys f ks = Inr (\<forall>k \<in> set ks. P k)"
  by (induction ks) auto

lemma deepEqual_leaf: "typeof v = T_string \<Longrightarrow> deepEqual r v w = Inr (w = v)"
  by (cases v; cases w) (auto simp: deepEqual.simps)

lemma inherited_not_string: "typeof (inherited [] k) \<noteq> T_string"
  by (simp add: inherited_def)

lemma inherited_not_object: "typeof (inherited [] k) \<noteq> T_object"
  by (simp add: inherited_def)

lemma distinct_keys_subset_eq:
  assumes "distinct (map fst xs)" "distinct (map fst ys)" "length xs = length ys"
    and "fst ` set xs \<subseteq> fst ` set ys"
  shows "fst ` set xs = fst ` set ys"
proof -
  have "card (fst ` set xs) = length xs" "card (fst ` set ys) = length ys"
    using assms(1,2) distinct_card[of "map fst xs"] distinct_card[of "map fst ys"] by auto
  then show ?thesis
    using assms(3,4) by (metis List.finite_set card_subset_eq finite_imageI)
qed

lemma distinct_keys_length:
  assumes "distinct (map fst xs)" "distinct (map fst ys)" "fst ` set xs = fst ` set ys"
  shows "length xs = length ys"
  using assms distinct_card[of "map fst xs"] distinct_card[of "map fst ys"] by auto

lemma deepEqual_record:
  assumes "is_branch_record x" "is_branch_record y"
  shows "deepEqual pristine x y = Inr (same_record x y)"
proof -
  obtain xs ys where x: "x = JObj xs" and y: "y = JObj ys"
    using assms by (cases x; cases y) auto
  have dx: "distinct (map fst xs)" and dy: "distinct (map fst ys)"
    and sx: "\<And>k v. (k, v) \<in> set xs \<Longrightarrow> typeof v = T_string"
    using assms by (auto simp: x y list_all_iff)
  have step: "deepEqual pristine (get pristine x k) (get pristine y k) = Inr (own y k = own x k)" if "k \<in> set (map fst xs)" for k
  proof -
    from that obtain v where v: "map_of xs k = Some v" "(k, v) \<in> set xs"
      using dx by (metis (no_types, lifting) image_iff list.set_map map_of_eq_Some_iff prod.collapse)
    then have tv: "typeof v = T_string" using sx by blast
    have "get pristine y k = v \<longleftrightarrow> map_of ys k = Some v"
      using tv inherited_not_string[of k] by (auto simp: y split: option.splits)
    then show ?thesis
      using v tv by (simp add: x y deepEqual_leaf)
  qed
  have loop: "for_keys (\<lambda>k. deepEqual pristine (get pristine x k) (get pristine y k)) (map fst xs) =
      Inr (\<forall>k \<in> set (map fst xs). own y k = own x k)"
    using step by (rule for_keys_all)
  have "deepEqual pristine x y =
      (if length xs \<noteq> length ys then Inr False
       else for_keys (\<lambda>k. deepEqual pristine (get pristine x k) (get pristine y k)) (map fst xs))"
    by (subst deepEqual.simps) (simp add: x y)
  then have "deepEqual pristine x y =
      (if length xs \<noteq> length ys then Inr False
       else Inr (\<forall>k \<in> set (map fst xs). own y k = own x k))"
    by (simp only: loop)
  moreover have "same_record x y \<longleftrightarrow> length xs = length ys \<and> (\<forall>k \<in> set (map fst xs). own y k = own x k)"
  proof
    assume s: "same_record x y"
    then have "fst ` set xs = fst ` set ys" by (simp add: same_record_def x y)
    then have "length xs = length ys" using dx dy distinct_keys_length by blast
    moreover have "own y k = own x k" if "k \<in> set (map fst xs)" for k
      using s that unfolding same_record_def x y keys_of.simps by metis
    ultimately show "length xs = length ys \<and> (\<forall>k \<in> set (map fst xs). own y k = own x k)"
      by blast
  next
    assume a: "length xs = length ys \<and> (\<forall>k \<in> set (map fst xs). own y k = own x k)"
    have "fst ` set xs \<subseteq> fst ` set ys"
    proof
      fix k assume k: "k \<in> fst ` set xs"
      then have "map_of xs k \<noteq> None" by (simp add: map_of_eq_None_iff)
      then have "map_of ys k \<noteq> None" using a k by (auto simp: x y)
      then show "k \<in> fst ` set ys" by (simp add: map_of_eq_None_iff)
    qed
    then have "fst ` set xs = fst ` set ys"
      using dx dy a distinct_keys_subset_eq by blast
    moreover have "own x k = own y k" if "k \<in> set (map fst xs)" for k
      using a that by metis
    ultimately show "same_record x y"
      unfolding same_record_def x y keys_of.simps by (metis list.set_map)
  qed
  ultimately show ?thesis by auto
qed


lemma deepEqual_record_prototype:
  "deepEqual pristine (JObj xs) (JObjectPrototype []) = Inr (xs = [])"
  by (subst deepEqual.simps) auto

lemma deepEqual_record_inherited:
  "deepEqual pristine (JObj xs) (inherited [] k) = Inr False"
  by (subst deepEqual.simps) (simp add: inherited_def)

lemma deepEqual_manifest_value:
  assumes "is_manifest A" "is_manifest B"
  shows "deepEqual pristine A B =
     Inr (length (keys_of A) = length (keys_of B) \<and> (\<forall>k \<in> set (keys_of A). branch_agrees A B k))"
proof -
  obtain xs ys where A: "A = JObj xs" and B: "B = JObj ys"
    using assms by (cases A; cases B) auto
  have dx: "distinct (map fst xs)"
    and rx: "\<And>k v. (k, v) \<in> set xs \<Longrightarrow> is_branch_record v"
    and ry: "\<And>k v. (k, v) \<in> set ys \<Longrightarrow> is_branch_record v"
    using assms by (auto simp: A B list_all_iff)
  have step: "deepEqual pristine (get pristine A k) (get pristine B k) = Inr (branch_agrees A B k)"
    if "k \<in> set (map fst xs)" for k
  proof -
    from that obtain x where x: "map_of xs k = Some x" "(k, x) \<in> set xs"
      using dx by (metis (no_types, lifting) image_iff list.set_map map_of_eq_Some_iff prod.collapse)
    then have bx: "is_branch_record x" using rx by blast
    then obtain xr where xr: "x = JObj xr" by (cases x) auto
    show ?thesis
    proof (cases "map_of ys k")
      case (Some y)
      then have "is_branch_record y" using ry map_of_SomeD by fastforce
      then show ?thesis using bx x Some by (simp add: A B branch_agrees_def deepEqual_record)
    next
      case None
      show ?thesis
      proof (cases "k = ''__proto__''")
        case True
        then show ?thesis using x None
          by (simp add: A B branch_agrees_def xr deepEqual_record_prototype)
      next
        case False
        then show ?thesis using x None
          by (simp add: A B branch_agrees_def xr deepEqual_record_inherited)
      qed
    qed
  qed
  have loop: "for_keys (\<lambda>k. deepEqual pristine (get pristine A k) (get pristine B k)) (map fst xs) =
      Inr (\<forall>k \<in> set (map fst xs). branch_agrees A B k)"
    using step by (rule for_keys_all)
  have "deepEqual pristine A B =
      (if length xs \<noteq> length ys then Inr False
       else for_keys (\<lambda>k. deepEqual pristine (get pristine A k) (get pristine B k)) (map fst xs))"
    by (subst deepEqual.simps) (simp add: A B)
  then have "deepEqual pristine A B =
      (if length xs \<noteq> length ys then Inr False
       else Inr (\<forall>k \<in> set (map fst xs). branch_agrees A B k))"
    by (simp only: loop)
  then show ?thesis by (simp add: A B)
qed

lemma same_manifest_iff:
  assumes "is_manifest A" "is_manifest B" "\<not> proto_hole A B"
  shows "same_manifest A B \<longleftrightarrow>
     length (keys_of A) = length (keys_of B) \<and> (\<forall>k \<in> set (keys_of A). branch_agrees A B k)"
proof -
  obtain xs ys where A: "A = JObj xs" and B: "B = JObj ys"
    using assms by (cases A; cases B) auto
  have dx: "distinct (map fst xs)" and dy: "distinct (map fst ys)"
    using assms by (auto simp: A B)
  have agree: "branch_agrees A B k \<longleftrightarrow>
      (case (own A k, own B k) of (Some x, Some y) \<Rightarrow> same_record x y | _ \<Rightarrow> False)" for k
    using assms(3) by (auto simp: branch_agrees_def proto_hole_def split: option.splits)
  show ?thesis
  proof
    assume s: "same_manifest A B"
    then have "fst ` set xs = fst ` set ys" by (simp add: same_manifest_def A B)
    then have "length xs = length ys" using dx dy distinct_keys_length by blast
    moreover have "branch_agrees A B k" if "k \<in> set (keys_of A)" for k
      using s that unfolding same_manifest_def agree by blast
    ultimately show "length (keys_of A) = length (keys_of B) \<and>
        (\<forall>k \<in> set (keys_of A). branch_agrees A B k)"
      by (simp add: A B)
  next
    assume a: "length (keys_of A) = length (keys_of B) \<and>
        (\<forall>k \<in> set (keys_of A). branch_agrees A B k)"
    have "fst ` set xs \<subseteq> fst ` set ys"
    proof
      fix k assume k: "k \<in> fst ` set xs"
      then have "branch_agrees A B k" using a by (auto simp: A)
      then have "case (own A k, own B k) of (Some x, Some y) \<Rightarrow> same_record x y | _ \<Rightarrow> False"
        using agree by blast
      then have "map_of ys k \<noteq> None" by (auto simp: A B split: option.splits)
      then show "k \<in> fst ` set ys" by (simp add: map_of_eq_None_iff)
    qed
    moreover have "length xs = length ys" using a by (simp add: A B)
    ultimately have "set (keys_of A) = set (keys_of B)"
      using dx dy distinct_keys_subset_eq by (simp add: A B)
    then show "same_manifest A B"
      using a unfolding same_manifest_def agree by blast
  qed
qed

section \<open>Properties of the revision lookups\<close>










section \<open>Properties of the resolved manifest\<close>

lemma place_set: "set (place k v kvs) = insert (k, v) (set kvs)"
  by (induction kvs) auto

lemma place_keys: "set (map fst (place k v kvs)) = insert k (set (map fst kvs))"
  by (induction kvs) auto

lemma place_distinct: "k \<notin> fst ` set kvs \<Longrightarrow> distinct (map fst kvs) \<Longrightarrow> distinct (map fst (place k v kvs))"
  by (induction kvs) (auto simp: place_set image_iff)

lemma place_map_of: "k \<notin> fst ` set kvs \<Longrightarrow> map_of (place k v kvs) = (map_of kvs)(k \<mapsto> v)"
  by (induction kvs) (auto simp: fun_upd_twist)

lemma define_own_map_of: "map_of (define_own kvs k v) = (map_of kvs)(k \<mapsto> v)"
  by (simp add: define_own_def place_map_of AList.update_conv')

lemma define_own_distinct: "distinct (map fst kvs) \<Longrightarrow> distinct (map fst (define_own kvs k v))"
  by (simp add: define_own_def place_distinct AList.distinct_update)

lemma define_own_keys: "set (map fst (define_own kvs k v)) = insert k (set (map fst kvs))"
  by (auto simp: define_own_def place_keys AList.update_keys simp del: set_map)


lemma install_blank:
  assumes "\<forall>s \<in> set ss. ordinary_branch (branch s)"
    and "distinct (map fst kvs)" and "\<forall>kv \<in> set kvs. snd kv = JObj []"
  shows "\<exists>kvs'. install (JObj kvs) ss = JObj kvs' \<and> distinct (map fst kvs') \<and>
           (\<forall>kv \<in> set kvs'. snd kv = JObj []) \<and>
           set (map fst kvs') = set (map fst kvs) \<union> branch ` set ss"
  using assms
proof (induction ss arbitrary: kvs)
  case Nil
  then show ?case by simp
next
  case (Cons s ss)
  have ord: "branch s \<noteq> ''__proto__''" "branch s \<notin> set prototype_functions"
    using Cons.prems(1) by (auto simp: ordinary_branch_def)
  show ?case
  proof (cases "map_of kvs (branch s)")
    case None
    then have notin: "branch s \<notin> fst ` set kvs" by (simp add: map_of_eq_None_iff)
    have g: "get pristine (JObj kvs) (branch s) = JUndefined"
      using None ord by (simp add: inherited_def)
    let ?kvs = "define_own kvs (branch s) (JObj [])"
    have step: "install (JObj kvs) (s # ss) = install (JObj ?kvs) ss"
      using g ord by simp
    have d: "distinct (map fst ?kvs)" using Cons.prems(2) by (rule define_own_distinct)
    have "set ?kvs = insert (branch s, JObj []) (set kvs)"
      using notin by (simp add: define_own_def place_set)
    then have b: "\<forall>kv \<in> set ?kvs. snd kv = JObj []" using Cons.prems(3) by auto
    from Cons.IH[OF _ d b] Cons.prems(1)
    obtain kvs' where "install (JObj ?kvs) ss = JObj kvs'" "distinct (map fst kvs')"
      "\<forall>kv \<in> set kvs'. snd kv = JObj []"
      "set (map fst kvs') = set (map fst ?kvs) \<union> branch ` set ss"
      by auto
    then show ?thesis using step by (auto simp: define_own_keys simp del: set_map)
  next
    case (Some v)
    then have "(branch s, v) \<in> set kvs" by (rule map_of_SomeD)
    then have v: "v = JObj []" and k: "branch s \<in> set (map fst kvs)"
      using Cons.prems(3) by force+
    have step: "install (JObj kvs) (s # ss) = install (JObj kvs) ss"
      using Some v by simp
    from Cons.IH[OF _ Cons.prems(2,3)] Cons.prems(1)
    obtain kvs' where "install (JObj kvs) ss = JObj kvs'" "distinct (map fst kvs')"
      "\<forall>kv \<in> set kvs'. snd kv = JObj []"
      "set (map fst kvs') = set (map fst kvs) \<union> branch ` set ss"
      by auto
    then show ?thesis using step k by auto
  qed
qed

lemma two_level_own:
  assumes "two_level m" and "own m k = Some b"
  shows "is_record b"
proof -
  obtain kvs where m: "m = JObj kvs" using assms(1) by (cases m) auto
  then have "(k, b) \<in> set kvs" using assms(2) by (auto dest: map_of_SomeD)
  then show ?thesis using assms(1) by (auto simp: m list_all_iff)
qed

lemma assign_record:
  assumes "is_record b" and "r \<noteq> ''__proto__''"
  shows "is_record (assign b r v)" and "own (assign b r v) = (own b)(r \<mapsto> v)"
proof -
  obtain bs where b: "b = JObj bs" using assms(1) by (cases b) auto
  show "is_record (assign b r v)" using assms by (simp add: b define_own_distinct)
  show "own (assign b r v) = (own b)(r \<mapsto> v)"
    using assms(2) by (auto simp: b define_own_map_of)
qed

lemma store_own:
  "own m (branch s) = Some b \<Longrightarrow>
   store m r s v = Inr (JObj (AList.update (branch s) (assign b (name s) v) (props m)), r)"
  by (simp add: store_def)

lemma store_two_level:
  assumes "two_level m" and "own m (branch s) \<noteq> None" and "name s \<noteq> ''__proto__''"
  shows "\<exists>m'. store m r s v = Inr (m', r) \<and> two_level m' \<and> keys_of m' = keys_of m \<and>
           (\<forall>k n. entry m' k n = (if k = branch s \<and> n = name s then Some v else entry m k n))"
proof -
  obtain kvs where m: "m = JObj kvs" using assms(1) by (cases m) auto
  obtain b where b: "map_of kvs (branch s) = Some b" using assms(2) by (auto simp: m)
  then have rb: "is_record b" using two_level_own[OF assms(1)] by (simp add: m)
  let ?b = "assign b (name s) v"
  let ?m = "JObj (AList.update (branch s) ?b kvs)"
  have st: "store m r s v = Inr (?m, r)"
    using store_own[of m s b r v] b by (simp add: m)
  have kin: "branch s \<in> fst ` set kvs" using map_of_SomeD[OF b] by force
  have rec: "is_record ?b" using assign_record(1)[OF rb assms(3)] .
  have vals: "set (AList.update (branch s) ?b kvs) \<subseteq> insert (branch s, ?b) (set kvs)"
    by (induction kvs) auto
  have 1: "two_level ?m"
    using assms(1) rec vals by (auto simp: m list_all_iff AList.distinct_update)
  have 2: "keys_of ?m = keys_of m"
    using kin by (simp add: m AList.update_keys)
  have 3: "\<forall>k n. entry ?m k n = (if k = branch s \<and> n = name s then Some v else entry m k n)"
    using b assign_record(2)[OF rb assms(3), of v]
    by (auto simp: entry_def m AList.update_conv')
  show ?thesis
    by (intro exI[of _ ?m] conjI) (rule st 1 2 3)+
qed

lemma completes_set:
  "set (completes n order finished) = (set order \<inter> {..<n}) - set finished"
  by (induction order arbitrary: finished) auto

lemma completes_distinct: "distinct (completes n order finished)"
  by (induction order arbitrary: finished) (auto simp: completes_set)

lemma completion_set: "set (completion n order) = {..<n}"
  by (auto simp: completion_def completes_set)

lemma completion_distinct: "distinct (completion n order)"
  by (simp add: completion_def completes_distinct)

lemma settle_entries:
  assumes ok: "\<forall>s \<in> set ss. fetchSHA e r s = Inr (sha s)"
    and ord: "\<forall>s \<in> set ss. name s \<noteq> ''__proto__''"
    and "two_level m" and "\<forall>s \<in> set ss. own m (branch s) \<noteq> None"
    and "\<forall>k n. entry m k n =
           map_of (map (\<lambda>i. ((branch (ss ! i), name (ss ! i)), sha (ss ! i))) finished) (k, n)"
  shows "\<exists>m'. settle e ss order finished m r = Inr (m', r) \<and> two_level m' \<and>
           keys_of m' = keys_of m \<and>
           (\<forall>k n. entry m' k n =
              map_of (map (\<lambda>i. ((branch (ss ! i), name (ss ! i)), sha (ss ! i)))
                        (rev (completes (length ss) order finished) @ finished)) (k, n))"
  using assms(3-)
proof (induction order arbitrary: finished m)
  case Nil
  show ?case
    by (intro exI[of _ m] conjI) (use Nil in simp_all)
next
  case (Cons i order)
  show ?case
  proof (cases "length ss \<le> i \<or> i \<in> set finished")
    case True
    from Cons.IH[OF Cons.prems] show ?thesis using True by simp
  next
    case False
    then have i: "i < length ss" "i \<notin> set finished" by auto
    let ?s = "ss ! i"
    have s: "?s \<in> set ss" using i by simp
    have f: "fetchSHA e r ?s = Inr (sha ?s)" using ok s by blast
    have o: "own m (branch ?s) \<noteq> None" using Cons.prems(2) s by blast
    have n: "name ?s \<noteq> ''__proto__''" using ord s by blast
    from store_two_level[OF Cons.prems(1) o n, of r "sha ?s"]
    obtain m1 where st: "store m r ?s (sha ?s) = Inr (m1, r)" "two_level m1"
      "keys_of m1 = keys_of m"
      "\<forall>k n. entry m1 k n = (if k = branch ?s \<and> n = name ?s then Some (sha ?s) else entry m k n)"
      by (elim exE conjE) (rule that, assumption+)
    have p2: "\<forall>s \<in> set ss. own m1 (branch s) \<noteq> None"
    proof
      fix t assume "t \<in> set ss"
      then have "own m (branch t) \<noteq> None" using Cons.prems(2) by blast
      moreover obtain xs where "m = JObj xs"
        using Cons.prems(1) by (cases m) simp_all
      moreover obtain ys where "m1 = JObj ys"
        using st(2) by (cases m1) simp_all
      ultimately show "own m1 (branch t) \<noteq> None"
        using st(3) by (simp add: map_of_eq_None_iff flip: set_map)
    qed
    have p5: "\<forall>k n. entry m1 k n =
           map_of (map (\<lambda>i. ((branch (ss ! i), name (ss ! i)), sha (ss ! i))) (i # finished)) (k, n)"
    proof (intro allI)
      fix k n
      show "entry m1 k n =
           map_of (map (\<lambda>i. ((branch (ss ! i), name (ss ! i)), sha (ss ! i))) (i # finished)) (k, n)"
        using st(4) Cons.prems(3) by simp
    qed
    from Cons.IH[OF st(2) p2 p5]
    obtain m' where r: "settle e ss order (i # finished) m1 r = Inr (m', r)" "two_level m'"
      "keys_of m' = keys_of m1"
      "\<forall>k n. entry m' k n =
          map_of (map (\<lambda>i. ((branch (ss ! i), name (ss ! i)), sha (ss ! i)))
                    (rev (completes (length ss) order (i # finished)) @ i # finished)) (k, n)"
      by (elim exE conjE) (rule that, assumption+)
    have b: "settle e ss (i # order) finished m r = Inr (m', r)"
      using False f st(1) r(1) by (simp add: resolve_def)
    have c: "keys_of m' = keys_of m" using r(3) st(3) by simp
    have d: "\<forall>k n. entry m' k n =
          map_of (map (\<lambda>i. ((branch (ss ! i), name (ss ! i)), sha (ss ! i)))
                    (rev (completes (length ss) (i # order) finished) @ finished)) (k, n)"
      using r(4) False by simp
    show ?thesis
      by (intro exI[of _ m'] conjI) (rule b r(2) c d)+
  qed
qed

lemma map_of_find:
  "map_of (map (\<lambda>i. (key i, val i)) F) k = map_option val (find (\<lambda>i. key i = k) F)"
  by (induction F) auto

text \<open>
  Assignments reach a built-in object only through a branch that is the name of a member
  of \<open>Object.prototype\<close>: when the branches are ordinary every source has its
  record in the manifest, and the lookups leave the realm as it is.
\<close>

lemma store_keeps_owned:
  assumes "own m (branch s) \<noteq> None"
  shows "\<exists>m'. store m r s v = Inr (m', r) \<and> (\<forall>k. own m k \<noteq> None \<longrightarrow> own m' k \<noteq> None)"
proof -
  obtain b where b: "own m (branch s) = Some b" using assms by auto
  then obtain kvs where m: "m = JObj kvs" by (cases m) simp_all
  show ?thesis
    using store_own[OF b, of r v] by (auto simp: m AList.update_conv')
qed

lemma settle_keeps_realm:
  assumes "\<forall>s \<in> set ss. own m (branch s) \<noteq> None"
  shows "(\<forall>p. settle e ss order finished m r = Inr p \<longrightarrow> snd p = r) \<and>
         (\<forall>x. settle e ss order finished m r = Inl x \<longrightarrow> (\<exists>t \<in> set ss. fetchSHA e r t = Inl x))"
  using assms
proof (induction order arbitrary: finished m)
  case Nil
  then show ?case by simp
next
  case (Cons i order)
  show ?case
  proof (cases "length ss \<le> i \<or> i \<in> set finished")
    case True
    then show ?thesis using Cons.IH[OF Cons.prems] by simp
  next
    case False
    then have s: "ss ! i \<in> set ss" by simp
    show ?thesis
    proof (cases "fetchSHA e r (ss ! i)")
      case (Inl y)
      then show ?thesis using False s by (auto simp: resolve_def)
    next
      case (Inr v)
      from store_keeps_owned[of m "ss ! i" r v] Cons.prems s
      obtain m' where m': "store m r (ss ! i) v = Inr (m', r)"
        "\<forall>k. own m k \<noteq> None \<longrightarrow> own m' k \<noteq> None"
        by blast
      then have "\<forall>s \<in> set ss. own m' (branch s) \<noteq> None" using Cons.prems by blast
      from Cons.IH[OF this, of "i # finished"] show ?thesis
        using False Inr m'(1) by (simp add: resolve_def)
    qed
  qed
qed

lemma map_of_all_indices:
  assumes "distinct (map key ss)" and "distinct F" and "set F = {..<length ss}"
  shows "map_of (map (\<lambda>i. (key (ss ! i), val (ss ! i))) F) = map_of (map (\<lambda>s. (key s, val s)) ss)"
proof -
  have dss: "distinct ss" and inj: "inj_on key (set ss)"
    using assms(1) by (auto simp: distinct_map)
  have "inj_on ((!) ss) (set F)"
    using dss assms(3) by (auto simp: inj_on_def nth_eq_iff_index_eq)
  then have d1: "distinct (map ((!) ss) F)" using assms(2) by (simp add: distinct_map)
  have s0: "(!) ss ` set F = set ss"
    unfolding assms(3) by (auto simp: in_set_conv_nth)
  then have s1: "set (map ((!) ss) F) = set ss" by simp
  have "inj_on key (set (map ((!) ss) F))" using inj s1 by simp
  then have "distinct (map key (map ((!) ss) F))"
    using d1 by (subst distinct_map) blast
  then have "distinct (map fst (map (\<lambda>i. (key (ss ! i), val (ss ! i))) F))"
    by (simp add: comp_def)
  moreover have "distinct (map fst (map (\<lambda>s. (key s, val s)) ss))"
    using assms(1) by (simp add: comp_def)
  moreover have "set (map (\<lambda>i. (key (ss ! i), val (ss ! i))) F) = set (map (\<lambda>s. (key s, val s)) ss)"
  proof -
    have "set (map (\<lambda>i. (key (ss ! i), val (ss ! i))) F) = (\<lambda>s. (key s, val s)) ` ((!) ss ` set F)"
      by (simp add: image_image)
    then show ?thesis by (simp add: s0)
  qed
  ultimately show ?thesis by (simp only: map_of_inject_set)
qed

lemma record_pairs:
  assumes "is_record b"
  shows "(r, v) \<in> set (props b) \<longleftrightarrow> own b r = Some v"
proof -
  obtain bs where "b = JObj bs" using assms by (cases b) simp_all
  then show ?thesis using assms by simp
qed

lemma leaves_set:
  assumes "two_level m"
  shows "set (leaves m) = {(k, r, v). entry m k r = Some v}"
proof -
  obtain kvs where m: "m = JObj kvs" using assms by (cases m) simp_all
  have d: "distinct (map fst kvs)" and rec: "\<And>k b. (k, b) \<in> set kvs \<Longrightarrow> is_record b"
    using assms by (auto simp: m list_all_iff)
  have "(k, r, v) \<in> set (leaves m) \<longleftrightarrow> entry m k r = Some v" for k r v
  proof
    assume "(k, r, v) \<in> set (leaves m)"
    then obtain b where b: "(k, b) \<in> set kvs" "(r, v) \<in> set (props b)"
      by (auto simp: leaves_def m)
    then have "own m k = Some b" using d by (simp add: m)
    moreover have "own b r = Some v" using record_pairs[OF rec[OF b(1)]] b(2) by simp
    ultimately show "entry m k r = Some v" by (simp add: entry_def)
  next
    assume "entry m k r = Some v"
    then obtain b where b: "own m k = Some b" "own b r = Some v"
      by (auto simp: entry_def split: option.splits)
    then have kb: "(k, b) \<in> set kvs" by (auto simp: m dest: map_of_SomeD)
    then have "(r, v) \<in> set (props b)" using record_pairs[OF rec[OF kb]] b(2) by simp
    then show "(k, r, v) \<in> set (leaves m)"
      using kb by (force simp: leaves_def m)
  qed
  then show ?thesis by auto
qed

lemma leaves_distinct_aux:
  "distinct (map fst kvs) \<Longrightarrow> (\<forall>kv \<in> set kvs. is_record (snd kv)) \<Longrightarrow>
   distinct (concat (map (\<lambda>kb. map (\<lambda>rv. (fst kb, fst rv, snd rv)) (props (snd kb))) kvs))"
proof (induction kvs)
  case Nil
  then show ?case by simp
next
  case (Cons kv kvs)
  obtain bs where bs: "snd kv = JObj bs" "distinct (map fst bs)"
    using Cons.prems(2) by (cases "snd kv") simp_all
  then have "distinct bs" by (simp add: distinct_map)
  then have 1: "distinct (map (\<lambda>rv. (fst kv, fst rv, snd rv)) (props (snd kv)))"
    by (simp add: bs distinct_map inj_on_def prod_eq_iff)
  have 2: "distinct (concat (map (\<lambda>kb. map (\<lambda>rv. (fst kb, fst rv, snd rv)) (props (snd kb))) kvs))"
    using Cons by simp
  have 3: "fst kv \<notin> fst ` set kvs" using Cons.prems(1) by simp
  have "set (map (\<lambda>rv. (fst kv, fst rv, snd rv)) (props (snd kv))) \<inter>
        set (concat (map (\<lambda>kb. map (\<lambda>rv. (fst kb, fst rv, snd rv)) (props (snd kb))) kvs)) = {}"
    using 3 by (auto simp: image_iff)
  then show ?case using 1 2 by simp
qed

lemma leaves_distinct:
  assumes "two_level m"
  shows "distinct (leaves m)"
proof -
  obtain kvs where m: "m = JObj kvs" using assms by (cases m) simp_all
  have "distinct (map fst kvs)" and "\<forall>kv \<in> set kvs. is_record (snd kv)"
    using assms by (simp_all add: m list_all_iff)
  from leaves_distinct_aux[OF this] show ?thesis
    unfolding leaves_def m props.simps .
qed


lemma install_owns:
  assumes "\<forall>s \<in> set (sources c). ordinary_branch (branch s)"
  shows "\<forall>s \<in> set (sources c). own (install (JObj []) (sources c)) (branch s) \<noteq> None"
proof -
  obtain kvs where kvs: "install (JObj []) (sources c) = JObj kvs"
    "set (map fst kvs) = set (map fst ([] :: (string \<times> jsval) list)) \<union> branch ` set (sources c)"
    using install_blank[OF assms, of "[]"] by auto
  show ?thesis
  proof
    fix s assume "s \<in> set (sources c)"
    then have "branch s \<in> fst ` set kvs" using kvs(2) by auto
    then show "own (install (JObj []) (sources c)) (branch s) \<noteq> None"
      by (simp add: kvs(1) map_of_eq_None_iff)
  qed
qed

lemma fetchLatestMeta_realm:
  assumes "\<forall>s \<in> set (sources c). ordinary_branch (branch s)"
    and "fetchLatestMeta e c order = Inr (m, r)"
  shows "r = pristine"
  using settle_keeps_realm[OF install_owns[OF assms(1)], of e "order @ [0..<length (sources c)]" "[]" pristine]
    assms(2)
  by (auto simp: fetchLatestMeta_def)


lemma resolved_manifest:
  assumes ok: "\<forall>s \<in> set (sources c). fetchSHA e pristine s = Inr (sha s)"
    and ord: "\<forall>s \<in> set (sources c). ordinary_keys s"
  shows "\<exists>m. fetchLatestMeta e c order = Inr (m, pristine) \<and> two_level m \<and>
           set (keys_of m) = branch ` set (sources c) \<and>
           (\<forall>k n. entry m k n =
              map_option (\<lambda>j. sha (sources c ! j))
                (last_writer (sources c) (completion (length (sources c)) order) k n)) \<and>
           (\<forall>k n. entry m k n \<noteq> None \<longleftrightarrow> (\<exists>s \<in> set (sources c). branch s = k \<and> name s = n)) \<and>
           (distinct (map (\<lambda>s. (branch s, name s)) (sources c)) \<longrightarrow>
              (\<forall>s \<in> set (sources c). entry m (branch s) (name s) = Some (sha s)) \<and>
              mset (leaves m) = mset (map (\<lambda>s. (branch s, name s, sha s)) (sources c)))"
proof -
  let ?ss = "sources c"
  let ?f = "\<lambda>s. ((branch s, name s), sha s)"
  let ?g = "\<lambda>i. ((branch (?ss ! i), name (?ss ! i)), sha (?ss ! i))"
  let ?F = "rev (completion (length ?ss) order)"
  have ob: "\<forall>s \<in> set ?ss. ordinary_branch (branch s)" using ord by (simp add: ordinary_keys_def)
  obtain kvs where kvs: "install (JObj []) ?ss = JObj kvs" "distinct (map fst kvs)"
    "\<forall>kv \<in> set kvs. snd kv = JObj []" "set (map fst kvs) = branch ` set ?ss"
    using install_blank[OF ob, of "[]"] by auto
  let ?m0 = "JObj kvs"
  have t0: "two_level ?m0" using kvs(2,3) by (auto simp: list_all_iff)
  have i0: "\<forall>s \<in> set ?ss. own ?m0 (branch s) \<noteq> None"
    using install_owns[OF ob] by (simp add: kvs(1))
  have e0: "\<forall>k n. entry ?m0 k n = map_of (map ?g []) (k, n)"
  proof (intro allI)
    fix k n
    show "entry ?m0 k n = map_of (map ?g []) (k, n)"
    proof (cases "map_of kvs k")
      case None
      then show ?thesis by (simp add: entry_def)
    next
      case (Some b)
      then have "b = JObj []" using kvs(3) map_of_SomeD by fastforce
      then show ?thesis using Some by (simp add: entry_def)
    qed
  qed
  have nm: "\<forall>s \<in> set ?ss. name s \<noteq> ''__proto__''" using ord by (simp add: ordinary_keys_def)
  from settle_entries[OF ok nm t0 i0 e0, of "order @ [0..<length ?ss]"]
  obtain m where r: "settle e ?ss (order @ [0..<length ?ss]) [] ?m0 pristine = Inr (m, pristine)"
    "two_level m" "keys_of m = keys_of ?m0"
    "\<forall>k n. entry m k n =
        map_of (map ?g (rev (completes (length ?ss) (order @ [0..<length ?ss]) []) @ [])) (k, n)"
    by (elim exE conjE) (rule that, assumption+)
  have ent: "entry m k n = map_of (map ?g ?F) (k, n)" for k n
    using r(4) by (simp add: completion_def)
  have dF: "distinct ?F" by (simp add: completion_distinct)
  have sF: "set ?F = {..<length ?ss}" by (simp add: completion_set)
  have 1: "fetchLatestMeta e c order = Inr (m, pristine)"
    using r(1) kvs(1) by (simp add: fetchLatestMeta_def)
  have 2: "set (keys_of m) = branch ` set ?ss" using r(3) kvs(4) by simp
  have 3: "\<forall>k n. entry m k n =
      map_option (\<lambda>j. sha (?ss ! j)) (last_writer ?ss (completion (length ?ss) order) k n)"
  proof (intro allI)
    fix k n
    have "map_of (map ?g ?F) (k, n) =
        map_option (\<lambda>j. sha (?ss ! j)) (find (\<lambda>i. (branch (?ss ! i), name (?ss ! i)) = (k, n)) ?F)"
      by (rule map_of_find)
    then show "entry m k n =
        map_option (\<lambda>j. sha (?ss ! j)) (last_writer ?ss (completion (length ?ss) order) k n)"
      by (simp add: ent last_writer_def)
  qed
  have 4: "\<forall>k n. entry m k n \<noteq> None \<longleftrightarrow> (\<exists>s \<in> set ?ss. branch s = k \<and> name s = n)"
  proof (intro allI)
    fix k n
    have "entry m k n \<noteq> None \<longleftrightarrow> (k, n) \<in> fst ` set (map ?g ?F)"
      by (simp only: ent map_of_eq_None_iff) simp
    also have "\<dots> \<longleftrightarrow> (\<exists>i < length ?ss. branch (?ss ! i) = k \<and> name (?ss ! i) = n)"
      using sF by (auto simp: image_iff)
    also have "\<dots> \<longleftrightarrow> (\<exists>s \<in> set ?ss. branch s = k \<and> name s = n)"
      by (metis in_set_conv_nth)
    finally show "entry m k n \<noteq> None \<longleftrightarrow> (\<exists>s \<in> set ?ss. branch s = k \<and> name s = n)" .
  qed
  have 5: "(\<forall>s \<in> set ?ss. entry m (branch s) (name s) = Some (sha s)) \<and>
            mset (leaves m) = mset (map (\<lambda>s. (branch s, name s, sha s)) ?ss)"
    if dist: "distinct (map (\<lambda>s. (branch s, name s)) ?ss)"
  proof -
    have mo: "map_of (map ?g ?F) = map_of (map ?f ?ss)"
      using map_of_all_indices[OF dist dF sF, of sha] .
    have ent': "entry m k n = map_of (map ?f ?ss) (k, n)" for k n
      using ent mo by simp
    have dk: "distinct (map fst (map ?f ?ss))" using dist by (simp add: comp_def)
    have a: "\<forall>s \<in> set ?ss. entry m (branch s) (name s) = Some (sha s)"
    proof
      fix s assume "s \<in> set ?ss"
      then have "?f s \<in> set (map ?f ?ss)" by simp
      then show "entry m (branch s) (name s) = Some (sha s)"
        using dk by (simp only: ent' map_of_eq_Some_iff)
    qed
    have "set (leaves m) = set (map (\<lambda>s. (branch s, name s, sha s)) ?ss)"
    proof -
      have "(k, n, v) \<in> set (leaves m) \<longleftrightarrow> (k, n, v) \<in> set (map (\<lambda>s. (branch s, name s, sha s)) ?ss)" for k n v
      proof -
        have "(k, n, v) \<in> set (leaves m) \<longleftrightarrow> ((k, n), v) \<in> set (map ?f ?ss)"
          using dk by (simp only: leaves_set[OF r(2)] ent' map_of_eq_Some_iff) simp
        also have "\<dots> \<longleftrightarrow> (k, n, v) \<in> set (map (\<lambda>s. (branch s, name s, sha s)) ?ss)"
          by auto
        finally show ?thesis .
      qed
      then show ?thesis by auto
    qed
    moreover have "distinct (map (\<lambda>s. (branch s, name s, sha s)) ?ss)"
      using dist by (auto simp: distinct_map inj_on_def)
    ultimately have b: "mset (leaves m) = mset (map (\<lambda>s. (branch s, name s, sha s)) ?ss)"
      using leaves_distinct[OF r(2)] by (simp only: set_eq_iff_mset_eq_distinct)
    show ?thesis using a b by blast
  qed
  have 6: "distinct (map (\<lambda>s. (branch s, name s)) ?ss) \<longrightarrow>
              (\<forall>s \<in> set ?ss. entry m (branch s) (name s) = Some (sha s)) \<and>
              mset (leaves m) = mset (map (\<lambda>s. (branch s, name s, sha s)) ?ss)"
    using 5 by blast
  show ?thesis
    by (intro exI[of _ m] conjI) (rule 1 r(2) 2 3 4 6)+
qed

section \<open>The claims\<close>



text \<open>
  Claim C1.  The claim is that \<open>deepEqual\<close> returns true on two manifests if
  and only if they have the same keys at both levels and the same leaves.  The code
  reads \<open>b[k]\<close> for every own key \<open>k\<close> of \<open>a\<close> without asking whether
  \<open>b\<close> owns \<open>k\<close>.  For \<open>k = "__proto__"\<close>, an own key of a manifest
  that \<open>r.json()\<close> has parsed from \<open>{"__proto__": {}}\<close>, the read on a
  manifest that does not own the key returns \<open>Object.prototype\<close>, an object
  without enumerable keys, which compares equal to the empty branch record: the published
  manifest \<open>{"__proto__": {}}\<close> and the resolved manifest
  \<open>{"master": {}}\<close> have different keys, and \<open>deepEqual\<close> returns true.
\<close>

theorem deepEqual_misses_proto_key:
  "is_manifest (JObj [(''__proto__'', JObj [])]) \<and>
   is_manifest (JObj [(''master'', JObj [])]) \<and>
   set (keys_of (JObj [(''__proto__'', JObj [])])) \<noteq> set (keys_of (JObj [(''master'', JObj [])])) \<and>
   deepEqual pristine (JObj [(''__proto__'', JObj [])]) (JObj [(''master'', JObj [])]) = Inr True"
  by (simp add: deepEqual.simps inherited_def prototype_functions_def)

text \<open>
  On every other pair of manifests \<open>deepEqual\<close> decides the equality of the
  specification: same keys at both levels, same leaves, whatever the order of the keys.
  In particular the empty mapping differs from every manifest that has a branch.
\<close>

theorem deepEqual_manifests:
  assumes "is_manifest A" and "is_manifest B" and "\<not> proto_hole A B"
  shows "deepEqual pristine A B = Inr (same_manifest A B)"
  using assms by (simp add: deepEqual_manifest_value same_manifest_iff)

theorem deepEqual_manifests_witness:
  "deepEqual pristine (JObj [(''main'', JObj [(''r1'', JStr ''abc123''), (''r2'', JStr ''f00'')]), (''dev'', JObj [])])
             (JObj [(''dev'', JObj []), (''main'', JObj [(''r2'', JStr ''f00''), (''r1'', JStr ''abc123'')])]) = Inr True \<and>
   deepEqual pristine (JObj [(''main'', JObj [(''r1'', JStr ''abc123'')])])
             (JObj [(''main'', JObj [(''r1'', JStr ''abc124'')])]) = Inr False \<and>
   deepEqual pristine (JObj []) (JObj [(''main'', JObj [(''r1'', JStr ''abc123'')])]) = Inr False"
proof -
  let ?A = "JObj [(''main'', JObj [(''r1'', JStr ''abc123''), (''r2'', JStr ''f00'')]), (''dev'', JObj [])]"
  let ?B = "JObj [(''dev'', JObj []), (''main'', JObj [(''r2'', JStr ''f00''), (''r1'', JStr ''abc123'')])]"
  let ?C = "JObj [(''main'', JObj [(''r1'', JStr ''abc123'')])]"
  let ?D = "JObj [(''main'', JObj [(''r1'', JStr ''abc124'')])]"
  have 1: "deepEqual pristine ?A ?B = Inr (same_manifest ?A ?B)"
    by (rule deepEqual_manifests) (simp_all add: proto_hole_def)
  have 2: "deepEqual pristine ?C ?D = Inr (same_manifest ?C ?D)"
    by (rule deepEqual_manifests) (simp_all add: proto_hole_def)
  have 3: "deepEqual pristine (JObj []) ?C = Inr (same_manifest (JObj []) ?C)"
    by (rule deepEqual_manifests) (simp_all add: proto_hole_def)
  have "same_manifest ?A ?B" by (auto simp: same_manifest_def same_record_def)
  moreover have "\<not> same_manifest ?C ?D" by (simp add: same_manifest_def same_record_def)
  moreover have "\<not> same_manifest (JObj []) ?C" by (simp add: same_manifest_def)
  ultimately show ?thesis using 1 2 3 by simp
qed

text \<open>
  Claim C2.  In the variant with change detection, whenever \<open>deepEqual\<close> finds
  the published manifest equal to the freshly resolved one, \<open>build\<close> returns
  without any further effect: beyond the requests that resolved the two manifests the
  only effect is the message \<open>No updates\<close> on the console; the directories, the
  files and their contents are those of the start (no output or workspace directory, no
  clone, no extraction, no file written), and the run is a success.
\<close>

theorem build_no_updates:
  assumes "fetchLatestMeta e c order = Inr (latest, r)"
    and "fetchCurrentMeta e c = Inr current"
    and "deepEqual r current latest = Inr True"
  shows "build c e order schedule w =
     (Inr No_updates,
      w\<lparr>trace := trace w @ map (\<lambda>s. HttpGet (sha_url s)) (sources c)
                   @ [HttpGet (meta_url c), ConsoleInfo ''No updates'']\<rparr>)"
  using assms by (simp add: build_def log_def)

theorem build_no_updates_witness:
  "build (config_of [source_r1])
     (host (lookups (Response 200 (Some (JObj [(''main'', JObj [(''r1'', JStr ''abc123'')])]))))
        clones_close extracts) [] [] disk =
     (Inr No_updates,
      disk\<lparr>trace := [HttpGet (sha_url source_r1), HttpGet (meta_url (config_of [source_r1])),
                       ConsoleInfo ''No updates'']\<rparr>)"
proof -
  let ?m = "JObj [(''main'', JObj [(''r1'', JStr ''abc123'')])]"
  let ?c = "config_of [source_r1]"
  let ?e = "host (lookups (Response 200 (Some ?m))) clones_close extracts"
  have l: "fetchLatestMeta ?e ?c [] = Inr (?m, pristine)"
    by (simp add: manifest_defs scenario_defs)
  have c: "fetchCurrentMeta ?e ?c = Inr ?m"
    by (simp add: fetchCurrentMeta_def scenario_defs)
  have q: "deepEqual pristine ?m ?m = Inr True"
    by (simp add: deepEqual.simps)
  show ?thesis
    using build_no_updates[OF l c q, of "[]" disk] by (simp add: disk_def config_of_def)
qed



text \<open>
  Claim C7, as stated: retrieving the published manifest never fails the run.  It does
  when the request is answered with status 200 and a body that is not JSON
  (\<open>r.json()\<close> rejects), and when \<open>fetch\<close> itself rejects.
\<close>

theorem fetchCurrentMeta_can_fail:
  "fetchCurrentMeta (host (\<lambda>u. Response 200 None) clones_close extracts) (config_of [source_r1])
     = Inl SyntaxError \<and>
   fetchCurrentMeta (host (\<lambda>u. Unreachable) clones_close extracts) (config_of [source_r1])
     = Inl NetworkError"
  by (simp add: fetchCurrentMeta_def scenario_defs)

text \<open>
  Claim C7, amended.  \<open>fetchCurrentMeta\<close> returns the parsed body when the
  remote answers with status 200 and a JSON body, and the empty mapping on every other
  status, without raising an error.  It fails exactly when no response arrives or the
  body of a response with status 200 is not JSON, and \<open>build\<close> fails with it.
\<close>

theorem fetchCurrentMeta_cases:
  "(http e (meta_url c) = Response 200 (Some j) \<longrightarrow> fetchCurrentMeta e c = Inr j) \<and>
   (status \<noteq> 200 \<and> http e (meta_url c) = Response status body \<longrightarrow>
       fetchCurrentMeta e c = Inr (JObj [])) \<and>
   ((\<exists>x. fetchCurrentMeta e c = Inl x) \<longleftrightarrow>
       http e (meta_url c) = Unreachable \<or> http e (meta_url c) = Response 200 None) \<and>
   (fetchLatestMeta e c order = Inr (latest, r) \<and> fetchCurrentMeta e c = Inl x \<longrightarrow>
       fst (build c e order schedule w) = Inl x)"
  by (auto simp: fetchCurrentMeta_def build_def Let_def split: response.splits option.splits)

theorem fetchCurrentMeta_cases_witness:
  "fetchCurrentMeta (host (lookups (Response 200 (Some (JObj [(''main'', JObj [(''r1'', JStr ''abc123'')])]))))
       clones_close extracts) (config_of [source_r1])
     = Inr (JObj [(''main'', JObj [(''r1'', JStr ''abc123'')])]) \<and>
   fetchCurrentMeta (host (lookups (Response 404 None)) clones_close extracts) (config_of [source_r1])
     = Inr (JObj []) \<and>
   fst (build (config_of [source_r1]) (host (lookups Unreachable) clones_close extracts) [] [] disk)
     = Inl NetworkError"
proof -
  let ?m = "JObj [(''main'', JObj [(''r1'', JStr ''abc123'')])]"
  let ?c = "config_of [source_r1]"
  have h: "http (host (lookups p) clones_close extracts) (meta_url ?c) = p" for p
    by (simp add: scenario_defs)
  have 1: "fetchCurrentMeta (host (lookups (Response 200 (Some ?m))) clones_close extracts) ?c = Inr ?m"
    using fetchCurrentMeta_cases[of "host (lookups (Response 200 (Some ?m))) clones_close extracts" ?c ?m] h
    by simp
  have 2: "fetchCurrentMeta (host (lookups (Response 404 None)) clones_close extracts) ?c = Inr (JObj [])"
    using fetchCurrentMeta_cases[of "host (lookups (Response 404 None)) clones_close extracts" ?c _ 404 None] h
    by simp
  let ?e = "host (lookups Unreachable) clones_close extracts"
  have l: "fetchLatestMeta ?e ?c [] = Inr (?m, pristine)"
    by (simp add: manifest_defs scenario_defs)
  have "fetchCurrentMeta ?e ?c = Inl NetworkError"
    using h[of Unreachable] by (simp add: fetchCurrentMeta_def)
  then have 3: "fst (build ?c ?e [] [] disk) = Inl NetworkError"
    using fetchCurrentMeta_cases[of ?e ?c _ _ _ "[]" ?m pristine NetworkError "[]" disk] l by simp
  from 1 2 3 show ?thesis by simp
qed

text \<open>
  Claim C9, as stated: for every configuration whose lookups succeed the manifest has
  one leaf per source descriptor, holding that descriptor's revision.  The manifest is
  keyed by branch and repository name only, while a descriptor is also identified by its
  owner: the sources \<open>o/r1\<close> and \<open>p/r1\<close>, both at branch
  \<open>main\<close>, resolve to different revisions and share one leaf.  The leaf holds
  the revision of the lookup that completed last: that of \<open>p/r1\<close> when the
  lookups complete in the order of the sources, that of \<open>o/r1\<close> when the lookup
  of \<open>p/r1\<close> completes first.
\<close>

theorem fetchLatestMeta_shared_leaf:
  "fetchSHA (host (lookups Unreachable) clones_close extracts) pristine source_r1 = Inr (JStr ''abc123'') \<and>
   fetchSHA (host (lookups Unreachable) clones_close extracts) pristine source_fork = Inr (JStr ''fff999'') \<and>
   fetchLatestMeta (host (lookups Unreachable) clones_close extracts)
       (config_of [source_r1, source_fork]) [0, 1]
     = Inr (JObj [(''main'', JObj [(''r1'', JStr ''fff999'')])], pristine) \<and>
   fetchLatestMeta (host (lookups Unreachable) clones_close extracts)
       (config_of [source_r1, source_fork]) [1, 0]
     = Inr (JObj [(''main'', JObj [(''r1'', JStr ''abc123'')])], pristine)"
  by (simp add: manifest_defs scenario_defs)

text \<open>
  The test \<open>b === undefined\<close> of \<open>fetchLatestMeta\<close> reads
  \<open>m[s.branch]\<close> through the prototype chain as well.  For a branch called
  \<open>constructor\<close> the read returns the function \<open>Object\<close>: no branch
  record is installed, the revision is assigned to a property of that function, and the
  manifest stays empty.  A repository called \<open>name\<close> at that branch makes the
  assignment throw, since the name of a function cannot be assigned to.
\<close>

lemma fetchLatestMeta_inherited_branch:
  "fetchLatestMeta (host (lookups Unreachable) clones_close extracts) (config_of [source_ctor]) []
     = Inr (JObj [],
            \<lparr>object_prototype = [],
             function_objects = [(''constructor'', JObj [(''r1'', JStr ''c0ffee'')])]\<rparr>)"
  by (simp add: manifest_defs scenario_defs put_function_def function_state_def)

lemma store_read_only:
  "store (JObj []) pristine (source_ctor\<lparr>name := ''name''\<rparr>) (JStr ''c0ffee'') = Inl TypeError"
  by (simp add: manifest_defs scenario_defs put_function_def function_state_def)

text \<open>
  Claim C9, amended.  For every configuration whose revision lookups all succeed and
  whose keys are ordinary, \<open>fetchLatestMeta\<close> returns, whatever the order in
  which the lookups complete, an object of objects with distinct keys whose branch keys
  are the branches of the descriptors, and leaves the built-in objects as they are.  For
  every branch \<open>k\<close> and repository name \<open>n\<close> there is a leaf at
  \<open>[k][n]\<close> exactly when some descriptor has this branch and this name, and
  the leaf holds the revision of the one among these descriptors whose lookup completed
  last.  When the descriptors have pairwise distinct pairs of branch and repository
  name, the leaves are, one for one, the descriptors' triples of branch, repository name
  and resolved revision: the entry at \<open>[branch][name]\<close> holds that descriptor's
  revision.  Descriptors that share a branch share its record, which is installed before
  any lookup is awaited.
\<close>

theorem fetchLatestMeta_resolves:
  assumes "\<forall>s \<in> set (sources c). fetchSHA e pristine s = Inr (sha s)"
    and "\<forall>s \<in> set (sources c). ordinary_keys s"
  shows "\<exists>m. fetchLatestMeta e c order = Inr (m, pristine) \<and> two_level m \<and>
           set (keys_of m) = branch ` set (sources c) \<and>
           (\<forall>k n. entry m k n =
              map_option (\<lambda>j. sha (sources c ! j))
                (last_writer (sources c) (completion (length (sources c)) order) k n)) \<and>
           (\<forall>k n. entry m k n \<noteq> None \<longleftrightarrow> (\<exists>s \<in> set (sources c). branch s = k \<and> name s = n)) \<and>
           (distinct (map (\<lambda>s. (branch s, name s)) (sources c)) \<longrightarrow>
              (\<forall>s \<in> set (sources c). entry m (branch s) (name s) = Some (sha s)) \<and>
              mset (leaves m) = mset (map (\<lambda>s. (branch s, name s, sha s)) (sources c)))"
  using assms by (rule resolved_manifest)

theorem fetchLatestMeta_resolves_witness:
  "(\<exists>m. fetchLatestMeta (host (lookups Unreachable) clones_close extracts)
          (config_of [source_r1, source_r2, source_r4]) [2, 0] = Inr (m, pristine) \<and>
        entry m ''main'' ''r1'' = Some (JStr ''abc123'') \<and>
        entry m ''main'' ''r4'' = Some (JStr ''0a1b2c'') \<and>
        entry m ''dev'' ''r2'' = Some (JStr ''def456'') \<and>
        set (keys_of m) = {''main'', ''dev''} \<and>
        mset (leaves m) =
          {#(''main'', ''r1'', JStr ''abc123''), (''dev'', ''r2'', JStr ''def456''),
            (''main'', ''r4'', JStr ''0a1b2c'')#}) \<and>
   (\<exists>m. fetchLatestMeta (host (lookups Unreachable) clones_close extracts)
          (config_of [source_r1, source_fork, source_r2]) [1] = Inr (m, pristine) \<and>
        completion 3 [1] = [1, 0, 2] \<and>
        entry m ''main'' ''r1'' = Some (JStr ''abc123'') \<and>
        entry m ''dev'' ''r2'' = Some (JStr ''def456'') \<and>
        entry m ''dev'' ''r1'' = None)"
proof -
  let ?e = "host (lookups Unreachable) clones_close extracts"
  let ?c = "config_of [source_r1, source_r2, source_r4]"
  let ?d = "config_of [source_r1, source_fork, source_r2]"
  let ?sha = "\<lambda>s. if s = source_r1 then JStr ''abc123''
                   else if s = source_r2 then JStr ''def456''
                   else if s = source_fork then JStr ''fff999'' else JStr ''0a1b2c''"
  have ne: "source_r1 \<noteq> source_r2" "source_r1 \<noteq> source_r4" "source_r2 \<noteq> source_r4"
    "source_r1 \<noteq> source_fork" "source_fork \<noteq> source_r2"
    by (simp_all add: source_r1_def source_r2_def source_r4_def source_fork_def)
  have ok: "\<forall>s \<in> set (sources ?c). fetchSHA ?e pristine s = Inr (?sha s)"
    by (simp add: fetchSHA_def scenario_defs pristine_def inherited_def)
  have dist: "distinct (map (\<lambda>s. (branch s, name s)) (sources ?c))"
    by (simp add: config_of_def source_r1_def source_r2_def source_r4_def)
  have ord: "\<forall>s \<in> set (sources ?c). ordinary_keys s"
    by (simp add: config_of_def ordinary_keys_def ordinary_branch_def prototype_functions_def
          source_r1_def source_r2_def source_r4_def)
  from fetchLatestMeta_resolves[OF ok ord, of "[2, 0]"] dist
  obtain m where m: "fetchLatestMeta ?e ?c [2, 0] = Inr (m, pristine)"
    "set (keys_of m) = branch ` set (sources ?c)"
    "\<forall>s \<in> set (sources ?c). entry m (branch s) (name s) = Some (?sha s)"
    "mset (leaves m) = mset (map (\<lambda>s. (branch s, name s, ?sha s)) (sources ?c))"
    by blast
  have 1: "entry m ''main'' ''r1'' = Some (JStr ''abc123'')"
    using m(3) by (simp add: config_of_def) (simp add: source_r1_def)
  have 2: "entry m ''main'' ''r4'' = Some (JStr ''0a1b2c'')"
    using m(3) ne by (simp add: config_of_def) (simp add: source_r4_def source_fork_def)
  have 3: "entry m ''dev'' ''r2'' = Some (JStr ''def456'')"
    using m(3) ne by (simp add: config_of_def) (simp add: source_r2_def)
  have 4: "set (keys_of m) = {''main'', ''dev''}"
    using m(2) by (auto simp: config_of_def source_r1_def source_r2_def source_r4_def)
  have 5: "mset (leaves m) =
          {#(''main'', ''r1'', JStr ''abc123''), (''dev'', ''r2'', JStr ''def456''),
            (''main'', ''r4'', JStr ''0a1b2c'')#}"
    using m(4) ne by (simp add: config_of_def) (simp add: source_r1_def source_r2_def source_r4_def source_fork_def)
  have first: "\<exists>m. fetchLatestMeta ?e ?c [2, 0] = Inr (m, pristine) \<and>
        entry m ''main'' ''r1'' = Some (JStr ''abc123'') \<and>
        entry m ''main'' ''r4'' = Some (JStr ''0a1b2c'') \<and>
        entry m ''dev'' ''r2'' = Some (JStr ''def456'') \<and>
        set (keys_of m) = {''main'', ''dev''} \<and>
        mset (leaves m) =
          {#(''main'', ''r1'', JStr ''abc123''), (''dev'', ''r2'', JStr ''def456''),
            (''main'', ''r4'', JStr ''0a1b2c'')#}"
    by (intro exI[of _ m] conjI) (rule m(1) 1 2 3 4 5)+
  have ok': "\<forall>s \<in> set (sources ?d). fetchSHA ?e pristine s = Inr (?sha s)"
    by (simp add: fetchSHA_def scenario_defs pristine_def inherited_def)
  have ord': "\<forall>s \<in> set (sources ?d). ordinary_keys s"
    by (simp add: config_of_def ordinary_keys_def ordinary_branch_def prototype_functions_def
          source_r1_def source_r2_def source_fork_def)
  have len: "completion (length (sources ?d)) [1] = [1, 0, 2]"
    by (simp add: config_of_def completion_def upt_rec)
  have c3: "completion 3 [1] = [1, 0, 2]"
    by (simp add: completion_def upt_rec)
  from fetchLatestMeta_resolves[OF ok' ord', of "[1]"]
  obtain m' where m': "fetchLatestMeta ?e ?d [1] = Inr (m', pristine)"
    "\<forall>k n. entry m' k n =
        map_option (\<lambda>j. ?sha (sources ?d ! j)) (last_writer (sources ?d) [1, 0, 2] k n)"
    unfolding len by blast
  have 6: "entry m' ''main'' ''r1'' = Some (JStr ''abc123'')"
    by (simp add: m'(2) last_writer_def config_of_def) (simp add: source_r1_def source_r2_def source_fork_def)
  have 7: "entry m' ''dev'' ''r2'' = Some (JStr ''def456'')"
    by (simp add: m'(2) last_writer_def config_of_def) (simp add: source_r1_def source_r2_def source_fork_def)
  have 8: "entry m' ''dev'' ''r1'' = None"
    by (simp add: m'(2) last_writer_def config_of_def) (simp add: source_r1_def source_r2_def source_fork_def)
  have second: "\<exists>m. fetchLatestMeta ?e ?d [1] = Inr (m, pristine) \<and>
        completion 3 [1] = [1, 0, 2] \<and>
        entry m ''main'' ''r1'' = Some (JStr ''abc123'') \<and>
        entry m ''dev'' ''r2'' = Some (JStr ''def456'') \<and>
        entry m ''dev'' ''r1'' = None"
    by (intro exI[of _ m'] conjI) (rule m'(1) c3 6 7 8)+
  from first second show ?thesis by (rule conjI)
qed

end
